theory Spec2Isabelle
  imports Main "HOL-Library.List_Lexorder" "HOL-Library.Char_ord"
begin

section \<open>Python values shared by all modules\<close>

text \<open>
  Exceptions raised by the package are values of \<open>error\<close>; a function that may raise
  returns \<open>error + 'a\<close> with \<open>Inl\<close> for the exception.
\<close>

datatype error = TypeError | ValueError | KeyError | IndexError | NameError

text \<open>A loop that stops at the first exception raised by its body.\<close>

fun mapE :: "('a \<Rightarrow> error + 'b) \<Rightarrow> 'a list \<Rightarrow> error + 'b list" where
  "mapE f [] = Inr []"
| "mapE f (x # xs) =
     (case f x of
        Inl e \<Rightarrow> Inl e
      | Inr y \<Rightarrow> (case mapE f xs of Inl e \<Rightarrow> Inl e | Inr ys \<Rightarrow> Inr (y # ys)))"

text \<open>
  An \<open>OrderedDict\<close> is an association list in insertion order with unique keys.
  \<open>d[k] = v\<close> overwrites the value of a key already present and leaves the key at
  its place, and appends a new key at the end; \<open>d[k]\<close> raises \<open>KeyError\<close> on a
  missing key.
\<close>

type_synonym ('k, 'v) odict = "('k \<times> 'v) list"

fun od_set :: "('k, 'v) odict \<Rightarrow> 'k \<Rightarrow> 'v \<Rightarrow> ('k, 'v) odict" where
  "od_set [] k v = [(k, v)]"
| "od_set ((k', v') # d) k v =
     (if k' = k then (k, v) # d else (k', v') # od_set d k v)"

definition od_get :: "('k, 'v) odict \<Rightarrow> 'k \<Rightarrow> error + 'v" where
  "od_get d k = (case map_of d k of None \<Rightarrow> Inl KeyError | Some v \<Rightarrow> Inr v)"

section \<open>ensemble.py: class Ensemble\<close>

text \<open>
  A block is a tuple of \<open>str\<close>; tuples and strings are compared lexicographically,
  strings by code point.
\<close>

type_synonym block = "string list"

text \<open>
  The objects an axis yields are either tuples (\<open>isinstance(obj, tuple)\<close>) or anything
  else; an axis itself is iterable or not. The builtins \<open>str\<close> and \<open>int\<close> are the
  parameters \<open>str_of\<close> and \<open>int_of\<close>, \<open>None\<close> when the call raises.
\<close>

datatype 'o elem = Tuple "'o list" | Obj 'o

datatype 'o arg = NotIterable | Iterable "'o elem list"

record Ensemble =
  oid :: nat
  blocks :: "block list"
  degeneracy :: "(block, int) odict"

fun format_obj ::
  "('o \<Rightarrow> string option) \<Rightarrow> ('o \<Rightarrow> int option) \<Rightarrow> int \<Rightarrow> 'o elem \<Rightarrow> error + (string \<times> int)"
where
  "format_obj str_of int_of default_degeneracy (Tuple obj) =
     (if length obj \<noteq> 2 then Inl ValueError
      else (case str_of (obj ! 0) of
              None \<Rightarrow> Inl TypeError
            | Some s \<Rightarrow> (case int_of (obj ! 1) of
                          None \<Rightarrow> Inl TypeError
                        | Some i \<Rightarrow> Inr (s, i))))"
| "format_obj str_of int_of default_degeneracy (Obj obj) =
     (case str_of obj of
        None \<Rightarrow> Inl TypeError
      | Some s \<Rightarrow> Inr (s, default_degeneracy))"

fun format_arg ::
  "('o \<Rightarrow> string option) \<Rightarrow> ('o \<Rightarrow> int option) \<Rightarrow> int \<Rightarrow> 'o arg \<Rightarrow>
     error + (string \<times> int) list"
where
  "format_arg str_of int_of default_degeneracy NotIterable = Inl TypeError"
| "format_arg str_of int_of default_degeneracy (Iterable objs) =
     mapE (format_obj str_of int_of default_degeneracy) objs"

definition format_args ::
  "('o \<Rightarrow> string option) \<Rightarrow> ('o \<Rightarrow> int option) \<Rightarrow> int \<Rightarrow> 'o arg list \<Rightarrow>
     error + (string \<times> int) list list"
where
  "format_args str_of int_of default_degeneracy args =
     mapE (format_arg str_of int_of default_degeneracy) args"

text \<open>
  The body of the loop over \<open>itertools.product(*args_formatted)\<close>: the block is the
  tuple of the labels, its degeneracy the running product started at 1.
\<close>

definition block_of :: "(string \<times> int) list \<Rightarrow> block" where
  "block_of blocks_degeneracies = map fst blocks_degeneracies"

definition deg_of :: "(string \<times> int) list \<Rightarrow> int" where
  "deg_of blocks_degeneracies = foldl (\<lambda>deg d. deg * d) 1 (map snd blocks_degeneracies)"

definition add_block ::
  "block list \<times> (block, int) odict \<Rightarrow> (string \<times> int) list \<Rightarrow> block list \<times> (block, int) odict"
where
  "add_block st blocks_degeneracies =
     (fst st @ [block_of blocks_degeneracies],
      od_set (snd st) (block_of blocks_degeneracies) (deg_of blocks_degeneracies))"

text \<open>
  \<open>Ensemble.__init__\<close>. \<open>self\<close> is the identity of the object being initialised;
  \<open>itertools.product\<close> is \<^const>\<open>product_lists\<close> (the last axis advances fastest);
  only the attribute \<open>blocks\<close> is sorted at the end.
\<close>

definition Ensemble_init ::
  "('o \<Rightarrow> string option) \<Rightarrow> ('o \<Rightarrow> int option) \<Rightarrow> nat \<Rightarrow> 'o arg list \<Rightarrow> int \<Rightarrow>
     error + Ensemble"
where
  "Ensemble_init str_of int_of self args default_degeneracy =
     (case format_args str_of int_of default_degeneracy args of
        Inl e \<Rightarrow> Inl e
      | Inr args_formatted \<Rightarrow>
          (let st = foldl add_block ([], []) (product_lists args_formatted)
           in Inr \<lparr>oid = self, blocks = sort (fst st), degeneracy = snd st\<rparr>))"

text \<open>\<open>Ensemble.__iter__\<close>: the items of the \<open>degeneracy\<close> dictionary.\<close>

definition Ensemble_iter :: "Ensemble \<Rightarrow> (block \<times> int) list" where
  "Ensemble_iter self = degeneracy self"

text \<open>
  The class defines neither \<open>__eq__\<close> nor \<open>__ne__\<close>, so \<open>a == b\<close> and \<open>a != b\<close> are
  the defaults of \<open>object\<close>: they compare identities.
\<close>

definition Ensemble_eq :: "Ensemble \<Rightarrow> Ensemble \<Rightarrow> bool" where
  "Ensemble_eq a b = (oid a = oid b)"

definition Ensemble_ne :: "Ensemble \<Rightarrow> Ensemble \<Rightarrow> bool" where
  "Ensemble_ne a b = (\<not> Ensemble_eq a b)"

text \<open>
  The call \<open>Ensemble(*args, default_degeneracy=...)\<close>: the new object lives at the
  next free address \<open>next\<close>; objects alive at the same time have different
  addresses.
\<close>

definition new_Ensemble ::
  "('o \<Rightarrow> string option) \<Rightarrow> ('o \<Rightarrow> int option) \<Rightarrow> 'o arg list \<Rightarrow> int \<Rightarrow> nat \<Rightarrow>
     error + (Ensemble \<times> nat)"
where
  "new_Ensemble str_of int_of args default_degeneracy next =
     (case Ensemble_init str_of int_of next args default_degeneracy of
        Inl e \<Rightarrow> Inl e
      | Inr ens \<Rightarrow> Inr (ens, Suc next))"

text \<open>
  The objects of the examples: \<open>str\<close> (ASCII) and \<open>int\<close> values, with \<open>str\<close> and \<open>int\<close>
  on them: \<open>int\<close> of a string strips the white space of ASCII (space, tab, line
  feed, vertical tab, form feed, carriage return) and reads an optional sign and
  decimal digits, single underscores allowed between digits.
\<close>

datatype pyobj = PyStr string | PyInt int

definition digit_char :: "nat \<Rightarrow> char" where
  "digit_char d = char_of (of_char (CHR ''0'') + d)"

fun str_nat :: "nat \<Rightarrow> nat \<Rightarrow> string" where
  "str_nat 0 n = []"
| "str_nat (Suc fuel) n =
     (if n < 10 then [digit_char n] else str_nat fuel (n div 10) @ [digit_char (n mod 10)])"

definition str_int :: "int \<Rightarrow> string" where
  "str_int i = (if i < 0 then CHR ''-'' # str_nat (Suc (nat (- i))) (nat (- i))
                else str_nat (Suc (nat i)) (nat i))"

definition is_digit :: "char \<Rightarrow> bool" where
  "is_digit c = (CHR ''0'' \<le> c \<and> c \<le> CHR ''9'')"

definition is_space :: "char \<Rightarrow> bool" where
  "is_space c = (c = CHR '' '' \<or> (9 \<le> (of_char c :: nat) \<and> (of_char c :: nat) \<le> 13))"

fun int_digits :: "string \<Rightarrow> nat \<Rightarrow> bool \<Rightarrow> nat option" where
  "int_digits [] acc after_digit = (if after_digit then Some acc else None)"
| "int_digits (c # cs) acc after_digit =
     (if is_digit c
      then int_digits cs (10 * acc + ((of_char c :: nat) - of_char (CHR ''0''))) True
      else if c = CHR ''_'' \<and> after_digit then int_digits cs acc False
      else None)"

definition int_str :: "string \<Rightarrow> int option" where
  "int_str s =
     (let t = dropWhile is_space (rev (dropWhile is_space (rev s)))
      in case t of
           [] \<Rightarrow> None
         | c # cs \<Rightarrow>
             if c = CHR ''-'' then map_option (\<lambda>n. - int n) (int_digits cs 0 False)
             else if c = CHR ''+'' then map_option int (int_digits cs 0 False)
             else map_option int (int_digits t 0 False))"

fun py_str :: "pyobj \<Rightarrow> string option" where
  "py_str (PyStr s) = Some s"
| "py_str (PyInt i) = Some (str_int i)"

fun py_int :: "pyobj \<Rightarrow> int option" where
  "py_int (PyStr s) = int_str s"
| "py_int (PyInt i) = Some i"

section \<open>numpy arrays\<close>

text \<open>
  An \<open>ndarray\<close> is its shape and its entries in row-major order; \<open>len\<close> of a
  0-dimensional array raises \<open>TypeError\<close>. A flattened array is the list of its
  entries.
\<close>

record 'a ndarray =
  shape :: "nat list"
  entries :: "'a list"

definition np_ndim :: "'a ndarray \<Rightarrow> nat" where
  "np_ndim a = length (shape a)"

definition np_len :: "'a ndarray \<Rightarrow> error + nat" where
  "np_len a = (case shape a of [] \<Rightarrow> Inl TypeError | n # _ \<Rightarrow> Inr n)"

definition np_flatten :: "'a ndarray \<Rightarrow> 'a list" where
  "np_flatten a = entries a"

text \<open>\<open>np.empty(n)\<close> for an integer \<open>n\<close>: one axis of length \<open>n\<close>, contents arbitrary.\<close>

definition np_empty :: "nat \<Rightarrow> ('a::zero) ndarray" where
  "np_empty n = \<lparr>shape = [n], entries = replicate n 0\<rparr>"

text \<open>\<open>np.unique\<close>: the sorted distinct values.\<close>

definition np_unique :: "nat list \<Rightarrow> nat list" where
  "np_unique xs = sort (remdups xs)"

text \<open>
  The indices of the model: an integer, the full slice \<open>:\<close>, and a tuple of strings
  (a block key). \<open>arr[i]\<close> selects along the first axis, negative \<open>i\<close> counting from
  the end; \<open>arr[()]\<close> is the array itself; a string is no valid index of a numeric
  array and raises \<open>IndexError\<close>, as does any index into a 0-dimensional array
  other than \<open>()\<close>.
\<close>

datatype index = IntIdx int | SliceAll | KeyIdx block

fun np_getitem :: "'a ndarray \<Rightarrow> index \<Rightarrow> error + 'a ndarray" where
  "np_getitem arr (IntIdx i) =
     (case shape arr of
        [] \<Rightarrow> Inl IndexError
      | n # sh \<Rightarrow>
          (let j = (if i < 0 then i + int n else i)
           in if 0 \<le> j \<and> j < int n
              then Inr \<lparr>shape = sh,
                        entries = take (prod_list sh) (drop (nat j * prod_list sh) (entries arr))\<rparr>
              else Inl IndexError))"
| "np_getitem arr SliceAll = (if shape arr = [] then Inl IndexError else Inr arr)"
| "np_getitem arr (KeyIdx b) = (if b = [] then Inr arr else Inl IndexError)"

text \<open>
  Matrices, for \<open>np.diag\<close> and the sum of its results: \<open>np.diag(v, k)\<close> is the square
  matrix of order \<open>len(v) + |k|\<close> with \<open>v\<close> on the \<open>k\<close>-th diagonal; \<open>+\<close> broadcasts an
  axis of length 1 against the other operand's axis and raises \<open>ValueError\<close> when
  the lengths differ otherwise.
\<close>

record 'a matrix =
  nrows :: nat
  ncols :: nat
  rows :: "'a list list"

definition np_diag :: "('a::zero) list \<Rightarrow> int \<Rightarrow> 'a matrix" where
  "np_diag v k =
     (let n = length v + nat \<bar>k\<bar>
      in \<lparr>nrows = n, ncols = n,
          rows = map (\<lambda>i. map (\<lambda>j. if int j = int i + k
                                      then v ! (if 0 \<le> k then i else j) else 0) [0..<n]) [0..<n]\<rparr>)"

definition broadcast_dim :: "nat \<Rightarrow> nat \<Rightarrow> nat option" where
  "broadcast_dim m n = (if m = n then Some m else if m = 1 then Some n
                        else if n = 1 then Some m else None)"

definition mat_at :: "'a matrix \<Rightarrow> nat \<Rightarrow> nat \<Rightarrow> 'a" where
  "mat_at a i j = rows a ! (if nrows a = 1 then 0 else i) ! (if ncols a = 1 then 0 else j)"

definition np_add :: "('a::plus) matrix \<Rightarrow> 'a matrix \<Rightarrow> error + 'a matrix" where
  "np_add a b =
     (case broadcast_dim (nrows a) (nrows b) of
        None \<Rightarrow> Inl ValueError
      | Some r \<Rightarrow>
          (case broadcast_dim (ncols a) (ncols b) of
             None \<Rightarrow> Inl ValueError
           | Some c \<Rightarrow>
               Inr \<lparr>nrows = r, ncols = c,
                    rows = map (\<lambda>i. map (\<lambda>j. mat_at a i j + mat_at b i j) [0..<c]) [0..<r]\<rparr>))"

definition np_array :: "'a matrix \<Rightarrow> 'a ndarray" where
  "np_array m = \<lparr>shape = [nrows m, ncols m], entries = concat (rows m)\<rparr>"

section \<open>array.py and ensemble\_array.py: classes Array and EnsembleArray\<close>

text \<open>
  Every container holds its ensemble. \<open>Array\<close> and \<open>EnsembleArray\<close> have the same
  attributes and, line by line, the same constructor; they differ in \<open>__mul__\<close> and
  \<open>__truediv__\<close>.
\<close>

record container =
  ensemble :: Ensemble

record 'a Array = container +
  array :: "(block, 'a ndarray) odict"
  ndim :: nat

text \<open>A loop whose body may raise, threading the state built so far.\<close>

fun foldE :: "('s \<Rightarrow> 'a \<Rightarrow> error + 's) \<Rightarrow> 's \<Rightarrow> 'a list \<Rightarrow> error + 's" where
  "foldE f s [] = Inr s"
| "foldE f s (x # xs) = (case f s x of Inl e \<Rightarrow> Inl e | Inr s' \<Rightarrow> foldE f s' xs)"

text \<open>
  The loops of the shape \<open>for block, x in items: data[block] = f(block, x)\<close>, started
  on an empty \<open>OrderedDict\<close>.
\<close>

definition store_loop ::
  "('k \<times> 'x \<Rightarrow> error + 'v) \<Rightarrow> ('k \<times> 'x) list \<Rightarrow> error + ('k, 'v) odict"
where
  "store_loop f items =
     foldE (\<lambda>data kx. case f kx of Inl e \<Rightarrow> Inl e | Inr v \<Rightarrow> Inr (od_set data (fst kx) v))
       [] items"

text \<open>The end of the constructor: the check that all arrays have one number of dimensions.\<close>

definition check_ndim :: "Ensemble \<Rightarrow> (block, 'a ndarray) odict \<Rightarrow> error + 'a Array" where
  "check_ndim ens arr =
     (let ndims = np_unique (map (\<lambda>kv. np_ndim (snd kv)) arr)
      in if length ndims \<noteq> 1 then Inl ValueError
         else Inr \<lparr>ensemble = ens, array = arr, ndim = ndims ! 0\<rparr>)"

text \<open>\<open>Array(ensemble, data)\<close> with \<open>tag=None\<close>; \<open>data[block]\<close> is an array.\<close>

definition Array_init :: "Ensemble \<Rightarrow> (block, 'a ndarray) odict \<Rightarrow> error + 'a Array" where
  "Array_init ens dat =
     (case store_loop (\<lambda>(block, deg). od_get dat block) (Ensemble_iter ens) of
        Inl e \<Rightarrow> Inl e
      | Inr arr \<Rightarrow> check_ndim ens arr)"

text \<open>\<open>EnsembleArray(ensemble, data, tag=tag)\<close>; \<open>data[block]\<close> is a dictionary of arrays.\<close>

definition Array_init_tag ::
  "Ensemble \<Rightarrow> (block, (string, 'a ndarray) odict) odict \<Rightarrow> string \<Rightarrow> error + 'a Array"
where
  "Array_init_tag ens dat tag =
     (case store_loop (\<lambda>(block, deg).
              case od_get dat block of Inl e \<Rightarrow> Inl e | Inr d \<Rightarrow> od_get d tag)
            (Ensemble_iter ens) of
        Inl e \<Rightarrow> Inl e
      | Inr arr \<Rightarrow> check_ndim ens arr)"

text \<open>
  \<open>Array.__getitem__\<close> and \<open>EnsembleArray.__getitem__\<close>. The argument of \<open>np.empty\<close>
  is \<open>self.ndim * (0)\<close>, the integer \<open>ndim * 0\<close>.
\<close>

definition Array_getitem :: "('a::zero) Array \<Rightarrow> index \<Rightarrow> error + 'a Array" where
  "Array_getitem self k =
     (case store_loop (\<lambda>(block, arr).
              case np_len arr of
                Inl e \<Rightarrow> Inl e
              | Inr n \<Rightarrow> if n > 0 then np_getitem arr k else Inr (np_empty (ndim self * 0)))
            (array self) of
        Inl e \<Rightarrow> Inl e
      | Inr dat \<Rightarrow> Array_init (ensemble self) dat)"

section \<open>scalar.py and ensemble\_scalar.py: classes Scalar and EnsembleScalar\<close>

text \<open>A scalar container stores a number or \<open>None\<close> for each block.\<close>

record 'a Scalar = container +
  scalar :: "(block, 'a option) odict"

text \<open>
  \<open>Scalar(ensemble, data)\<close> and \<open>EnsembleScalar(ensemble, data)\<close> with \<open>tag=None\<close>
  and \<open>dtype=None\<close>: the entry of each block is stored as it is.
\<close>

definition Scalar_init :: "Ensemble \<Rightarrow> (block, 'a option) odict \<Rightarrow> error + 'a Scalar" where
  "Scalar_init ens dat =
     (case store_loop (\<lambda>(block, deg). od_get dat block) (Ensemble_iter ens) of
        Inl e \<Rightarrow> Inl e
      | Inr sc \<Rightarrow> Inr \<lparr>ensemble = ens, scalar = sc\<rparr>)"

text \<open>\<open>Scalar.__getitem__\<close>: the entry of block \<open>k\<close>.\<close>

definition Scalar_getitem :: "'a Scalar \<Rightarrow> block \<Rightarrow> error + 'a option" where
  "Scalar_getitem self k = od_get (scalar self) k"

text \<open>
  \<open>Scalar.__neg__\<close>. The constructor stores the entries as they are, so an entry is
  \<open>None\<close> or any object. Unary minus on an object is the parameter \<open>neg_of\<close>, \<open>None\<close>
  when the object has no unary minus: \<open>-arr\<close> then raises \<open>TypeError\<close>, as it does for
  \<open>None\<close> itself. The name \<open>Array\<close> of the last line is not bound in scalar.py, whose
  imports are \<open>Ensemble\<close>, \<open>numpy\<close> and \<open>OrderedDict\<close>, so looking it up raises
  \<open>NameError\<close>.
\<close>

definition py_neg :: "('a \<Rightarrow> 'a option) \<Rightarrow> 'a option \<Rightarrow> error + 'a" where
  "py_neg neg_of x =
     (case x of
        None \<Rightarrow> Inl TypeError
      | Some v \<Rightarrow> (case neg_of v of None \<Rightarrow> Inl TypeError | Some w \<Rightarrow> Inr w))"

definition Scalar_neg :: "('a \<Rightarrow> 'a option) \<Rightarrow> 'a Scalar \<Rightarrow> error + 'a Array" where
  "Scalar_neg neg_of self =
     (case store_loop (\<lambda>(block, arr). py_neg neg_of arr) (scalar self) of
        Inl e \<Rightarrow> Inl e
      | Inr dat \<Rightarrow> Inl NameError)"

section \<open>Multiplication of array containers\<close>

text \<open>
  The right operand of \<open>__mul__\<close>: a plain number (\<open>np.isscalar\<close>), an \<open>Array\<close> or a
  \<open>Scalar\<close> container. \<open>other[block]\<close> calls the \<open>__getitem__\<close> of the operand's
  class: for a \<open>Scalar\<close> it is the entry of the block, for an \<open>Array\<close> it is
  \<open>Array.__getitem__\<close> with the block key as the index. numpy's \<open>arr * x\<close> is the
  parameter \<open>np_mul\<close>.
\<close>

datatype 'a operand = NumOp 'a | ArrayOp "'a Array" | ScalarOp "'a Scalar"

datatype 'a factor = Num "'a option" | Cont "'a Array"

definition operand_getitem :: "('a::zero) operand \<Rightarrow> block \<Rightarrow> error + 'a factor" where
  "operand_getitem other block =
     (case other of
        NumOp x \<Rightarrow> Inl TypeError
      | ArrayOp a \<Rightarrow>
          (case Array_getitem a (KeyIdx block) of Inl e \<Rightarrow> Inl e | Inr r \<Rightarrow> Inr (Cont r))
      | ScalarOp s \<Rightarrow>
          (case Scalar_getitem s block of Inl e \<Rightarrow> Inl e | Inr v \<Rightarrow> Inr (Num v)))"

text \<open>\<open>Array.__mul__\<close>.\<close>

definition Array_mul ::
  "('a ndarray \<Rightarrow> 'a factor \<Rightarrow> error + 'a ndarray) \<Rightarrow> ('a::zero) Array \<Rightarrow> 'a operand \<Rightarrow>
     error + 'a Array"
where
  "Array_mul np_mul self other =
     (case (case other of
              NumOp x \<Rightarrow> store_loop (\<lambda>(block, arr). np_mul arr (Num (Some x))) (array self)
            | _ \<Rightarrow> store_loop (\<lambda>(block, arr).
                      case operand_getitem other block of
                        Inl e \<Rightarrow> Inl e
                      | Inr f \<Rightarrow> np_mul arr f) (array self)) of
        Inl e \<Rightarrow> Inl e
      | Inr dat \<Rightarrow> Array_init (ensemble self) dat)"

text \<open>\<open>EnsembleArray.__mul__\<close>.\<close>

definition EnsembleArray_mul ::
  "('a ndarray \<Rightarrow> 'a factor \<Rightarrow> error + 'a ndarray) \<Rightarrow> 'a Array \<Rightarrow> 'a operand \<Rightarrow>
     error + 'a Array"
where
  "EnsembleArray_mul np_mul self other =
     (case other of
        NumOp x \<Rightarrow>
          (case store_loop (\<lambda>(block, arr). np_mul arr (Num (Some x))) (array self) of
             Inl e \<Rightarrow> Inl e
           | Inr dat \<Rightarrow> Array_init (ensemble self) dat)
      | _ \<Rightarrow> Inl TypeError)"

section \<open>algebra.py: dot\<close>

text \<open>
  \<open>dot(a, b)\<close> for two \<open>Array\<close> containers; \<open>numpy.dot\<close> is the parameter \<open>npdot\<close>.
\<close>

definition dot ::
  "('a ndarray \<Rightarrow> 'a ndarray \<Rightarrow> error + 'a ndarray) \<Rightarrow> 'a Array \<Rightarrow> 'a Array \<Rightarrow> error + 'a Array"
where
  "dot npdot a b =
     (if Ensemble_ne (ensemble a) (ensemble b) then Inl ValueError
      else (case store_loop (\<lambda>(block, deg).
                    case od_get (array a) block of
                      Inl e \<Rightarrow> Inl e
                    | Inr x \<Rightarrow> (case od_get (array b) block of
                                  Inl e \<Rightarrow> Inl e
                                | Inr y \<Rightarrow> npdot x y))
                  (Ensemble_iter (ensemble a)) of
              Inl e \<Rightarrow> Inl e
            | Inr dat \<Rightarrow> Array_init (ensemble a) dat))"

section \<open>ensemble\_tridiag.py: class EnsembleTriDiag\<close>

record 'a TriDiag = container +
  diag :: "(block, 'a list) odict"
  offdiag :: "(block, 'a list) odict"

text \<open>The branches of the constructor's loop on the two lengths; \<open>od[:-1]\<close> is \<^const>\<open>butlast\<close>.\<close>

definition tridiag_block :: "'a list \<Rightarrow> 'a list \<Rightarrow> error + ('a list \<times> 'a list)" where
  "tridiag_block d od =
     (if length d = length od then Inr (d, butlast od)
      else if length d = length od + 1 then Inr (d, od)
      else Inl ValueError)"

text \<open>
  The body of the constructor's loop: the two flattened arrays of the block, then the
  branch on their lengths, then the two stores.
\<close>

definition tridiag_entry ::
  "'a Array \<Rightarrow> 'a Array \<Rightarrow> block \<times> int \<Rightarrow> error + ('a list \<times> 'a list)"
where
  "tridiag_entry ens_diag ens_offdiag bd =
     (case od_get (array ens_diag) (fst bd) of
        Inl e \<Rightarrow> Inl e
      | Inr da \<Rightarrow>
          (case od_get (array ens_offdiag) (fst bd) of
             Inl e \<Rightarrow> Inl e
           | Inr oa \<Rightarrow> tridiag_block (np_flatten da) (np_flatten oa)))"

definition tridiag_step ::
  "'a Array \<Rightarrow> 'a Array \<Rightarrow> (block, 'a list) odict \<times> (block, 'a list) odict \<Rightarrow> block \<times> int \<Rightarrow>
     error + ((block, 'a list) odict \<times> (block, 'a list) odict)"
where
  "tridiag_step ens_diag ens_offdiag st bd =
     (case tridiag_entry ens_diag ens_offdiag bd of
        Inl e \<Rightarrow> Inl e
      | Inr (d, od) \<Rightarrow> Inr (od_set (fst st) (fst bd) d, od_set (snd st) (fst bd) od))"

text \<open>\<open>EnsembleTriDiag.__init__\<close>.\<close>

definition EnsembleTriDiag_init ::
  "Ensemble \<Rightarrow> (block, (string, 'a ndarray) odict) odict \<Rightarrow> string \<Rightarrow> string \<Rightarrow>
     error + 'a TriDiag"
where
  "EnsembleTriDiag_init ens dat diag_tag offdiag_tag =
     (case Array_init_tag ens dat diag_tag of
        Inl e \<Rightarrow> Inl e
      | Inr ens_diag \<Rightarrow>
          (case Array_init_tag ens dat offdiag_tag of
             Inl e \<Rightarrow> Inl e
           | Inr ens_offdiag \<Rightarrow>
               (case foldE (tridiag_step ens_diag ens_offdiag) ([], []) (Ensemble_iter ens) of
                  Inl e \<Rightarrow> Inl e
                | Inr st \<Rightarrow> Inr \<lparr>ensemble = ens, diag = fst st, offdiag = snd st\<rparr>)))"

text \<open>
  \<open>EnsembleTriDiag.eig0\<close>. \<open>scipy.linalg.eigvalsh_tridiagonal\<close> is the parameter
  \<open>eigvalsh_tridiagonal\<close>, called with the diagonal, the off-diagonal and the
  selection (\<open>'a'\<close>, or \<open>'i'\<close> with its range of indices); \<open>[0]\<close> of an empty result
  raises \<open>IndexError\<close>.
\<close>

datatype select = Select_a | Select_i nat nat

definition eig0_block ::
  "('a list \<Rightarrow> 'a list \<Rightarrow> select \<Rightarrow> error + 'a list) \<Rightarrow> 'a TriDiag \<Rightarrow> block \<times> int \<Rightarrow>
     error + 'a option"
where
  "eig0_block eigvalsh_tridiagonal self bd =
     (case od_get (diag self) (fst bd) of
        Inl e \<Rightarrow> Inl e
      | Inr d \<Rightarrow>
          if length d = 0 then Inr None
          else if length d = 1 then Inr (Some (d ! 0))
          else (case od_get (offdiag self) (fst bd) of
                  Inl e \<Rightarrow> Inl e
                | Inr od \<Rightarrow>
                    (case eigvalsh_tridiagonal d od (Select_i 0 0) of
                       Inl e \<Rightarrow> Inl e
                     | Inr w \<Rightarrow> (case w of [] \<Rightarrow> Inl IndexError | x # _ \<Rightarrow> Inr (Some x)))))"

definition eig0 ::
  "('a list \<Rightarrow> 'a list \<Rightarrow> select \<Rightarrow> error + 'a list) \<Rightarrow> 'a TriDiag \<Rightarrow> error + 'a Scalar"
where
  "eig0 eigvalsh_tridiagonal self =
     (case store_loop (eig0_block eigvalsh_tridiagonal self) (Ensemble_iter (ensemble self)) of
        Inl e \<Rightarrow> Inl e
      | Inr data_e0 \<Rightarrow> Scalar_init (ensemble self) data_e0)"

text \<open>
  \<open>EnsembleTriDiag.asarray\<close>. The constructor stores arrays only, so the test
  \<open>self.diag[block] is None\<close> is false for every block and the sum of the three
  \<open>np.diag\<close> is what each block gets.
\<close>

definition asarray_block :: "('a::{zero,plus}) TriDiag \<Rightarrow> block \<times> int \<Rightarrow> error + 'a ndarray" where
  "asarray_block self bd =
     (case od_get (diag self) (fst bd) of
        Inl e \<Rightarrow> Inl e
      | Inr d \<Rightarrow>
          (case od_get (offdiag self) (fst bd) of
             Inl e \<Rightarrow> Inl e
           | Inr od \<Rightarrow>
               (case np_add (np_diag d 0) (np_diag od 1) of
                  Inl e \<Rightarrow> Inl e
                | Inr m \<Rightarrow>
                    (case np_add m (np_diag od (- 1)) of
                       Inl e \<Rightarrow> Inl e
                     | Inr m' \<Rightarrow> Inr (np_array m')))))"

definition asarray :: "('a::{zero,plus}) TriDiag \<Rightarrow> error + 'a Array" where
  "asarray self =
     (case store_loop (asarray_block self) (Ensemble_iter (ensemble self)) of
        Inl e \<Rightarrow> Inl e
      | Inr data_mats \<Rightarrow> Array_init (ensemble self) data_mats)"

section \<open>Notions of the specification\<close>

text \<open>The size of an axis: the number of objects it yields.\<close>

definition axis_size :: "'o arg \<Rightarrow> nat" where
  "axis_size a = (case a of NotIterable \<Rightarrow> 0 | Iterable objs \<Rightarrow> length objs)"

text \<open>A list without its repetitions, each element at its first place.\<close>

definition first_occurrences :: "'a list \<Rightarrow> 'a list" where
  "first_occurrences xs = rev (remdups (rev xs))"

text \<open>
  The flattened vector that the data hold for a block under a tag (empty when the data
  have no such entry).
\<close>

definition flat_entry ::
  "(block, (string, 'a ndarray) odict) odict \<Rightarrow> string \<Rightarrow> block \<Rightarrow> 'a list"
where
  "flat_entry dat tag block =
     (case od_get dat block of
        Inl e \<Rightarrow> []
      | Inr d \<Rightarrow> (case od_get d tag of Inl e \<Rightarrow> [] | Inr x \<Rightarrow> np_flatten x))"

text \<open>
  The symmetric tridiagonal matrix of the specification: \<open>d\<close> on the main diagonal,
  \<open>od\<close> on the two adjacent diagonals, zero elsewhere.
\<close>

definition tridiag_dense :: "('a::zero) list \<Rightarrow> 'a list \<Rightarrow> 'a matrix" where
  "tridiag_dense d od =
     \<lparr>nrows = length d, ncols = length d,
      rows = map (\<lambda>i. map (\<lambda>j. if i = j then d ! i
                               else if j = i + 1 then od ! i
                               else if i = j + 1 then od ! j
                               else 0) [0..<length d]) [0..<length d]\<rparr>"


section \<open>Example data\<close>

text \<open>
  \<open>Ensemble(["a"])\<close> and \<open>Ensemble(["a", "b"])\<close> as the constructor returns them, each
  also as a second object at the next address; a 1-dimensional array; \<open>numpy.dot\<close> on two
  1-dimensional arrays of one length.
\<close>

abbreviation ens_a :: Ensemble where
  "ens_a \<equiv> \<lparr>oid = 0, blocks = [[''a'']], degeneracy = [([''a''], 1)]\<rparr>"

abbreviation ens_a' :: Ensemble where
  "ens_a' \<equiv> \<lparr>oid = 1, blocks = [[''a'']], degeneracy = [([''a''], 1)]\<rparr>"

abbreviation ens_ab :: Ensemble where
  "ens_ab \<equiv> \<lparr>oid = 0, blocks = [[''a''], [''b'']], degeneracy = [([''a''], 1), ([''b''], 1)]\<rparr>"

abbreviation ens_ab' :: Ensemble where
  "ens_ab' \<equiv> \<lparr>oid = 1, blocks = [[''a''], [''b'']], degeneracy = [([''a''], 1), ([''b''], 1)]\<rparr>"

abbreviation vector :: "'a list \<Rightarrow> 'a ndarray" where
  "vector xs \<equiv> \<lparr>shape = [length xs], entries = xs\<rparr>"

definition dot_1d :: "int ndarray \<Rightarrow> int ndarray \<Rightarrow> error + int ndarray" where
  "dot_1d x y =
     (if shape x = shape y \<and> length (shape x) = 1
      then Inr \<lparr>shape = [], entries = [sum_list (map2 (*) (entries x) (entries y))]\<rparr>
      else Inl ValueError)"

text \<open>
  Entries of scalar containers: Python numbers, numpy booleans and strings. Only the
  numbers have a unary minus.
\<close>

datatype pyscalar = PyNumber int | NpBool bool | PyText string

fun neg_scalar :: "pyscalar \<Rightarrow> pyscalar option" where
  "neg_scalar (PyNumber i) = Some (PyNumber (- i))"
| "neg_scalar (NpBool b) = None"
| "neg_scalar (PyText s) = None"

text \<open>
  \<open>Ensemble(["a", "b", "c"])\<close>, and an eigenvalue routine for matrices whose
  off-diagonal is zero: the lowest eigenvalue is the least entry of the diagonal.
\<close>

abbreviation ens_abc :: Ensemble where
  "ens_abc \<equiv> \<lparr>oid = 0, blocks = [[''a''], [''b''], [''c'']],
               degeneracy = [([''a''], 1), ([''b''], 1), ([''c''], 1)]\<rparr>"

definition lowest_of_diagonal :: "int list \<Rightarrow> int list \<Rightarrow> select \<Rightarrow> error + int list" where
  "lowest_of_diagonal d od sel = (if d = [] then Inl ValueError else Inr [fold min d (hd d)])"

section \<open>Properties of the Ensemble\<close>

subsection \<open>Auxiliary facts\<close>

lemma mapE_Inr_list_all2:
  "mapE f xs = Inr ys \<Longrightarrow> list_all2 (\<lambda>x y. f x = Inr y) xs ys"
  by (induction xs arbitrary: ys) (auto split: sum.splits)

lemma od_set_keys:
  "map fst (od_set d k v) = (if k \<in> set (map fst d) then map fst d else map fst d @ [k])"
  by (induction d) (auto simp: rev_image_eqI)

lemma od_set_fresh: "k \<notin> set (map fst d) \<Longrightarrow> od_set d k v = d @ [(k, v)]"
  by (induction d) auto

lemma foldl_add_block_fst:
  "fst (foldl add_block st cs) = fst st @ map block_of cs"
  by (induction cs arbitrary: st) (auto simp: add_block_def)

lemma foldl_add_block_keys:
  "map fst (snd (foldl add_block (bs, []) cs)) = first_occurrences (map block_of cs)"
proof (induction cs rule: rev_induct)
  case Nil
  show ?case by (simp add: first_occurrences_def)
next
  case (snoc c cs)
  have s: "set (first_occurrences (map block_of cs)) = set (map block_of cs)"
    by (simp add: first_occurrences_def)
  show ?case
    using snoc s by (auto simp: add_block_def od_set_keys first_occurrences_def)
qed

lemma foldl_add_block_distinct:
  "distinct (map fst (snd st) @ map block_of cs) \<Longrightarrow>
   snd (foldl add_block st cs) = snd st @ map (\<lambda>c. (block_of c, deg_of c)) cs"
proof (induction cs arbitrary: st)
  case Nil
  show ?case by simp
next
  case (Cons c cs)
  have fresh: "block_of c \<notin> set (map fst (snd st))" using Cons.prems by auto
  have step: "snd (add_block st c) = snd st @ [(block_of c, deg_of c)]"
    using fresh by (simp add: add_block_def od_set_fresh)
  have "distinct (map fst (snd (add_block st c)) @ map block_of cs)"
    using Cons.prems step by auto
  from Cons.IH [OF this] step show ?case by simp
qed

lemma foldl_mult: "foldl (\<lambda>deg d. deg * d) (a::int) ds = a * prod_list ds"
  by (induction ds arbitrary: a) (auto simp: algebra_simps)

lemma deg_of_prod: "deg_of c = prod_list (map snd c)"
  by (simp add: deg_of_def foldl_mult)

lemma map_product_lists:
  "map (map f) (product_lists xss) = product_lists (map (map f) xss)"
proof (induction xss)
  case Nil
  show ?case by simp
next
  case (Cons xs xss)
  have "map (map f) (concat (map (\<lambda>x. map (Cons x) (product_lists xss)) ys)) =
        concat (map (\<lambda>x. map (Cons x) (product_lists (map (map f) xss))) (map f ys))" for ys
    by (induction ys) (simp_all add: Cons.IH [symmetric] comp_def)
  then show ?case by simp
qed

lemma sorted_product_lists:
  fixes xss :: "('a::linorder) list list"
  assumes "\<forall>xs \<in> set xss. sorted_wrt (<) xs"
  shows "sorted_wrt (<) (product_lists xss)"
  using assms
proof (induction xss)
  case Nil
  show ?case by simp
next
  case (Cons xs xss)
  then have P: "sorted_wrt (<) (product_lists xss)" by simp
  have "sorted_wrt (<) ys \<Longrightarrow>
        sorted_wrt (<) (concat (map (\<lambda>x. map (Cons x) (product_lists xss)) ys))" for ys
  proof (induction ys)
    case Nil
    show ?case by simp
  next
    case (Cons y ys)
    have "sorted_wrt (<) (map (Cons y) (product_lists xss))"
      using P by (simp add: sorted_wrt_map)
    with Cons show ?case
      by (auto simp: sorted_wrt_append)
  qed
  with Cons.prems show ?case by simp
qed

lemma map_inj_product:
  assumes "\<forall>axis \<in> set af. distinct (map fst axis)"
  shows "distinct (map (map fst) (product_lists af))"
proof -
  have "\<forall>xs \<in> set (map (map fst) af). distinct xs" using assms by auto
  then have "distinct (product_lists (map (map fst) af))"
    by (intro distinct_product_lists) auto
  then show ?thesis by (simp add: map_product_lists)
qed

lemma first_occurrences_distinct: "distinct xs \<Longrightarrow> first_occurrences xs = xs"
  by (simp add: first_occurrences_def distinct_remdups_id)

lemma Ensemble_init_Inr:
  assumes "format_args str_of int_of dd args = Inr af"
  shows "Ensemble_init str_of int_of self args dd =
           Inr \<lparr>oid = self, blocks = sort (map block_of (product_lists af)),
                degeneracy = snd (foldl add_block ([], []) (product_lists af))\<rparr>"
  using assms by (simp add: Ensemble_init_def Let_def foldl_add_block_fst)

lemma format_args_sizes:
  assumes "format_args str_of int_of dd args = Inr af"
  shows "map length af = map axis_size args"
proof -
  have "list_all2 (\<lambda>a axis. format_arg str_of int_of dd a = Inr axis) args af"
    using assms unfolding format_args_def by (rule mapE_Inr_list_all2)
  then show ?thesis
  proof (induction rule: list_all2_induct)
    case Nil
    show ?case by simp
  next
    case (Cons a args axis af)
    have "length axis = axis_size a"
    proof (cases a)
      case NotIterable
      with Cons(1) show ?thesis by simp
    next
      case (Iterable objs)
      with Cons(1) have "list_all2 (\<lambda>x y. format_obj str_of int_of dd x = Inr y) objs axis"
        by (simp add: mapE_Inr_list_all2)
      then show ?thesis using Iterable by (simp add: axis_size_def list_all2_lengthD)
    qed
    with Cons show ?case by simp
  qed
qed

subsection \<open>Order of iteration\<close>

lemma map_of_od_set: "map_of (od_set d k v) = (map_of d)(k \<mapsto> v)"
  by (induction d) auto

lemma foldl_add_block_map_of:
  "map_of (snd (foldl add_block st cs)) =
     map_of (rev (map (\<lambda>c. (block_of c, deg_of c)) cs) @ snd st)"
proof (induction cs arbitrary: st)
  case Nil
  show ?case by simp
next
  case (Cons c cs)
  have "map_of (snd (foldl add_block st (c # cs))) =
        map_of (rev (map (\<lambda>c. (block_of c, deg_of c)) cs) @ snd (add_block st c))"
    using Cons.IH [of "add_block st c"] by simp
  also have "\<dots> = map_of (snd (add_block st c)) ++ map_of (rev (map (\<lambda>c. (block_of c, deg_of c)) cs))"
    by (simp only: map_of_append)
  also have "map_of (snd (add_block st c)) = (map_of (snd st))(block_of c \<mapsto> deg_of c)"
    by (simp add: add_block_def map_of_od_set)
  also have "(map_of (snd st))(block_of c \<mapsto> deg_of c) ++ map_of (rev (map (\<lambda>c. (block_of c, deg_of c)) cs)) =
        map_of (rev (map (\<lambda>c. (block_of c, deg_of c)) (c # cs)) @ snd st)"
    by (simp add: map_of_append)
  finally show ?case .
qed

text \<open>
  Claim C2, as amended. For every axis specification that the constructor accepts,
  iterating the Partition yields its (block key, degeneracy) pairs in the order of
  the Cartesian product of the axes as they were supplied (the last axis advancing
  fastest): every distinct block key once, at the place of its first occurrence, with
  the degeneracy of its last occurrence, which is the product of the degeneracies of
  that combination. This order is the sorted order of the block keys whenever, in
  every axis, the labels as converted by \<open>str\<close> are strictly increasing as strings.
  Whatever the order of the labels, the attribute \<open>blocks\<close> is the sorted list of the
  keys of all combinations.
\<close>

theorem Ensemble_iter_order:
  assumes "format_args str_of int_of dd args = Inr af"
  shows "\<exists>ens. Ensemble_init str_of int_of self args dd = Inr ens \<and>
           map fst (Ensemble_iter ens) = first_occurrences (product_lists (map (map fst) af)) \<and>
           map_of (Ensemble_iter ens) =
             map_of (rev (map (\<lambda>c. (map fst c, prod_list (map snd c))) (product_lists af))) \<and>
           blocks ens = sort (product_lists (map (map fst) af)) \<and>
           ((\<forall>axis \<in> set af. sorted_wrt (<) (map fst axis)) \<longrightarrow>
              sorted_wrt (<) (map fst (Ensemble_iter ens)))"
proof -
  let ?ks = "product_lists (map (map fst) af)"
  let ?ens = "\<lparr>oid = self, blocks = sort (map block_of (product_lists af)),
                degeneracy = snd (foldl add_block ([], []) (product_lists af))\<rparr>"
  have init: "Ensemble_init str_of int_of self args dd = Inr ?ens"
    using assms by (rule Ensemble_init_Inr)
  have bk: "map block_of (product_lists af) = ?ks"
    unfolding block_of_def by (rule map_product_lists)
  then have keys: "map fst (Ensemble_iter ?ens) = first_occurrences ?ks"
    by (simp add: Ensemble_iter_def foldl_add_block_keys)
  have degs: "map_of (Ensemble_iter ?ens) =
             map_of (rev (map (\<lambda>c. (map fst c, prod_list (map snd c))) (product_lists af)))"
    by (simp add: Ensemble_iter_def foldl_add_block_map_of block_of_def deg_of_prod)
  have blks: "blocks ?ens = sort ?ks" using bk by simp
  have "sorted_wrt (<) (map fst (Ensemble_iter ?ens))"
    if "\<forall>axis \<in> set af. sorted_wrt (<) (map fst axis)"
  proof -
    have "\<forall>xs \<in> set (map (map fst) af). sorted_wrt (<) xs" using that by simp
    then have srt: "sorted_wrt (<) ?ks" by (rule sorted_product_lists)
    then have "distinct ?ks" by (simp add: strict_sorted_iff)
    then show ?thesis using keys srt by (simp add: first_occurrences_distinct)
  qed
  with init keys degs blks show ?thesis by blast
qed

text \<open>The scenario of the specification, axes \<open>[("a",1),("b",2)]\<close> and \<open>["x","y"]\<close>.\<close>

theorem Ensemble_iter_order_witness:
  "format_args py_str py_int 1
     [Iterable [Tuple [PyStr ''a'', PyInt 1], Tuple [PyStr ''b'', PyInt 2]],
      Iterable [Obj (PyStr ''x''), Obj (PyStr ''y'')]] =
     Inr [[(''a'', 1), (''b'', 2)], [(''x'', 1), (''y'', 1)]] \<and>
   list_all (\<lambda>axis. sorted_wrt (<) (map fst axis))
     [[(''a'', 1::int), (''b'', 2)], [(''x'', 1), (''y'', 1)]] \<and>
   (\<exists>ens. Ensemble_init py_str py_int 0
       [Iterable [Tuple [PyStr ''a'', PyInt 1], Tuple [PyStr ''b'', PyInt 2]],
        Iterable [Obj (PyStr ''x''), Obj (PyStr ''y'')]] 1 = Inr ens \<and>
      map fst (Ensemble_iter ens) =
        [[''a'', ''x''], [''a'', ''y''], [''b'', ''x''], [''b'', ''y'']] \<and>
      map_of (Ensemble_iter ens) [''a'', ''y''] = Some 1 \<and>
      map_of (Ensemble_iter ens) [''b'', ''x''] = Some 2 \<and>
      blocks ens = [[''a'', ''x''], [''a'', ''y''], [''b'', ''x''], [''b'', ''y'']] \<and>
      sorted_wrt (<) (map fst (Ensemble_iter ens)))"
proof -
  have h: "format_args py_str py_int 1
     [Iterable [Tuple [PyStr ''a'', PyInt 1], Tuple [PyStr ''b'', PyInt 2]],
      Iterable [Obj (PyStr ''x''), Obj (PyStr ''y'')]] =
     Inr [[(''a'', 1), (''b'', 2)], [(''x'', 1), (''y'', 1)]]"
    by (simp add: format_args_def)
  show ?thesis
    using h Ensemble_iter_order [OF h, of 0]
    by (auto simp: first_occurrences_def)
qed

text \<open>
  The claim as stated fails: \<open>Ensemble(["b", "a"])\<close> iterates \<open>("b",)\<close> before \<open>("a",)\<close>;
  only the attribute \<open>blocks\<close> is sorted.
\<close>

theorem Ensemble_iter_sorted_counterexample:
  "Ensemble_init py_str py_int 0 [Iterable [Obj (PyStr ''b''), Obj (PyStr ''a'')]] 1 =
     Inr \<lparr>oid = 0, blocks = [[''a''], [''b'']], degeneracy = [([''b''], 1), ([''a''], 1)]\<rparr> \<and>
   \<not> sorted (map fst (Ensemble_iter
        \<lparr>oid = 0, blocks = [[''a''], [''b'']], degeneracy = [([''b''], 1), ([''a''], 1)]\<rparr>))"
  by (simp add: Ensemble_init_def format_args_def add_block_def block_of_def deg_of_def
      Ensemble_iter_def)

text \<open>
  Labels are compared after \<open>str\<close>: the integer axis \<open>[9, 10]\<close> iterates \<open>("9",)\<close>
  before \<open>("10",)\<close>, which is not the sorted order of the strings.
\<close>

lemma Ensemble_iter_int_labels:
  "Ensemble_init py_str py_int 0 [Iterable [Obj (PyInt 9), Obj (PyInt 10)]] 1 =
     Inr \<lparr>oid = 0, blocks = [[''10''], [''9'']], degeneracy = [([''9''], 1), ([''10''], 1)]\<rparr> \<and>
   \<not> sorted (map fst (Ensemble_iter
        \<lparr>oid = 0, blocks = [[''10''], [''9'']], degeneracy = [([''9''], 1), ([''10''], 1)]\<rparr>))"
proof -
  have s9: "str_int 9 = ''9''" by code_simp
  have s10: "str_int 10 = ''10''" by code_simp
  show ?thesis
    by (simp add: Ensemble_init_def format_args_def add_block_def block_of_def deg_of_def
        Ensemble_iter_def s9 s10)
qed

subsection \<open>The Cartesian product and the degeneracies\<close>

lemma format_args_bare:
  assumes "format_args str_of int_of dd args = Inr af"
  shows "list_all2 (\<lambda>a axis. \<forall>objs. a = Iterable objs \<longrightarrow>
            list_all2 (\<lambda>obj p. format_obj str_of int_of dd obj = Inr p) objs axis) args af"
proof -
  have "list_all2 (\<lambda>a axis. format_arg str_of int_of dd a = Inr axis) args af"
    using assms unfolding format_args_def by (rule mapE_Inr_list_all2)
  then show ?thesis
    by (rule list_all2_mono) (auto simp: mapE_Inr_list_all2)
qed

text \<open>
  Claim C3, as amended. For every axis specification that the constructor accepts and
  whose axes each list pairwise distinct labels, the Partition enumerates exactly the
  product of the axis sizes many block keys, all distinct; the keys are the full
  Cartesian product of the label sets of the axes; the degeneracy of each block is the
  product of the degeneracies of its components; and every component comes from
  \<open>format_obj\<close>, which gives a bare label the default degeneracy.
\<close>

theorem Ensemble_cartesian_product:
  assumes fmt: "format_args str_of int_of dd args = Inr af"
    and dist: "\<forall>axis \<in> set af. distinct (map fst axis)"
  shows "\<exists>ens. Ensemble_init str_of int_of self args dd = Inr ens \<and>
           length (Ensemble_iter ens) = prod_list (map axis_size args) \<and>
           distinct (map fst (Ensemble_iter ens)) \<and>
           set (map fst (Ensemble_iter ens)) =
             {b. list_all2 (\<lambda>label axis. label \<in> set (map fst axis)) b af} \<and>
           (\<forall>c \<in> set (product_lists af).
              map_of (Ensemble_iter ens) (map fst c) = Some (prod_list (map snd c))) \<and>
           list_all2 (\<lambda>a axis. \<forall>objs. a = Iterable objs \<longrightarrow>
              list_all2 (\<lambda>obj p. format_obj str_of int_of dd obj = Inr p) objs axis) args af"
proof -
  let ?cs = "product_lists af"
  let ?ens = "\<lparr>oid = self, blocks = sort (map block_of ?cs),
                degeneracy = snd (foldl add_block ([], []) ?cs)\<rparr>"
  have init: "Ensemble_init str_of int_of self args dd = Inr ?ens"
    using fmt by (rule Ensemble_init_Inr)
  have dk: "distinct (map block_of ?cs)"
    using map_inj_product [OF dist] by (simp add: block_of_def [abs_def])
  then have "distinct (map fst (snd (([]::block list), ([]::(block, int) odict))) @ map block_of ?cs)"
    by simp
  from foldl_add_block_distinct [OF this]
  have items: "Ensemble_iter ?ens = map (\<lambda>c. (block_of c, deg_of c)) ?cs"
    by (simp add: Ensemble_iter_def)
  have keys: "map fst (Ensemble_iter ?ens) = product_lists (map (map fst) af)"
    using items map_product_lists [of fst af] by (simp add: comp_def block_of_def [abs_def])
  have len: "length (Ensemble_iter ?ens) = prod_list (map axis_size args)"
    using items format_args_sizes [OF fmt] by (simp add: length_product_lists prod_list.eq_foldr)
  have dst: "distinct (map fst (Ensemble_iter ?ens))"
    using items dk by (simp add: comp_def)
  have st: "set (map fst (Ensemble_iter ?ens)) =
              {b. list_all2 (\<lambda>label axis. label \<in> set (map fst axis)) b af}"
    unfolding keys product_lists_set by (simp add: list_all2_map2)
  have deg: "map_of (Ensemble_iter ?ens) (map fst c) = Some (prod_list (map snd c))"
    if "c \<in> set ?cs" for c
  proof -
    have "(block_of c, deg_of c) \<in> set (Ensemble_iter ?ens)"
      using that items by auto
    with dst have "map_of (Ensemble_iter ?ens) (block_of c) = Some (deg_of c)"
      by simp
    then show ?thesis by (simp add: block_of_def deg_of_prod)
  qed
  from init len dst st deg format_args_bare [OF fmt] show ?thesis by blast
qed

theorem Ensemble_cartesian_product_witness:
  "format_args py_str py_int 1
     [Iterable [Tuple [PyStr ''a'', PyInt 1], Tuple [PyStr ''b'', PyInt 2]],
      Iterable [Obj (PyStr ''x''), Obj (PyStr ''y'')]] =
     Inr [[(''a'', 1), (''b'', 2)], [(''x'', 1), (''y'', 1)]] \<and>
   list_all (\<lambda>axis. distinct (map fst axis))
     [[(''a'', 1::int), (''b'', 2)], [(''x'', 1), (''y'', 1)]] \<and>
   (\<exists>ens. Ensemble_init py_str py_int 0
       [Iterable [Tuple [PyStr ''a'', PyInt 1], Tuple [PyStr ''b'', PyInt 2]],
        Iterable [Obj (PyStr ''x''), Obj (PyStr ''y'')]] 1 = Inr ens \<and>
      length (Ensemble_iter ens) = 4 \<and>
      distinct (map fst (Ensemble_iter ens)) \<and>
      map_of (Ensemble_iter ens) [''b'', ''y''] = Some 2)"
proof -
  have h: "format_args py_str py_int 1
     [Iterable [Tuple [PyStr ''a'', PyInt 1], Tuple [PyStr ''b'', PyInt 2]],
      Iterable [Obj (PyStr ''x''), Obj (PyStr ''y'')]] =
     Inr [[(''a'', 1), (''b'', 2)], [(''x'', 1), (''y'', 1)]]"
    by (simp add: format_args_def)
  have d: "\<forall>axis \<in> set [[(''a'', 1::int), (''b'', 2)], [(''x'', 1), (''y'', 1)]].
             distinct (map fst axis)"
    by simp
  show ?thesis
    using h Ensemble_cartesian_product [OF h d, of 0]
    by (auto simp: axis_size_def eval_nat_numeral)
qed

text \<open>
  The claim as stated fails on an axis that repeats a label: \<open>Ensemble(["a", "a"])\<close>
  has one block, and the product of the axis sizes is 2.
\<close>

theorem Ensemble_product_size_counterexample:
  "Ensemble_init py_str py_int 0 [Iterable [Obj (PyStr ''a''), Obj (PyStr ''a'')]] 1 =
     Inr \<lparr>oid = 0, blocks = [[''a''], [''a'']], degeneracy = [([''a''], 1)]\<rparr> \<and>
   length (Ensemble_iter \<lparr>oid = 0, blocks = [[''a''], [''a'']], degeneracy = [([''a''], 1)]\<rparr>)
     \<noteq> prod_list (map axis_size [Iterable [Obj (PyStr ''a''), Obj (PyStr ''a'')]])"
  by (simp add: Ensemble_init_def format_args_def add_block_def block_of_def deg_of_def
      Ensemble_iter_def axis_size_def)

subsection \<open>Equality of ensembles\<close>

text \<open>
  Claim C1, as amended. Equality of Partitions is identity: a Partition is equal to
  itself, two Partitions constructed one after the other are never equal, whatever
  their axis specifications, and \<open>dot\<close> on containers over two such Partitions
  raises \<open>ValueError\<close>.
\<close>

theorem Ensemble_identity:
  assumes "new_Ensemble str_of int_of args1 dd1 n = Inr (ens1, n1)"
    and "new_Ensemble str_of' int_of' args2 dd2 n1 = Inr (ens2, n2)"
  shows "Ensemble_eq ens1 ens1 \<and> Ensemble_eq ens2 ens2 \<and>
         \<not> Ensemble_eq ens1 ens2 \<and> \<not> Ensemble_eq ens2 ens1 \<and>
         (ensemble a = ens1 \<and> ensemble b = ens2 \<longrightarrow> dot npdot a b = Inl ValueError)"
proof -
  have o1: "oid ens1 = n" and n1: "n1 = Suc n"
    using assms(1) by (auto simp: new_Ensemble_def Ensemble_init_def Let_def split: sum.splits)
  have o2: "oid ens2 = n1"
    using assms(2) by (auto simp: new_Ensemble_def Ensemble_init_def Let_def split: sum.splits)
  show ?thesis
    using o1 o2 n1 by (auto simp: Ensemble_eq_def Ensemble_ne_def dot_def split: sum.splits)
qed

theorem Ensemble_identity_witness:
  "new_Ensemble py_str py_int [Iterable [Obj (PyStr ''a'')]] 1 0 = Inr (ens_a, 1) \<and>
   new_Ensemble py_str py_int [Iterable [Obj (PyStr ''a'')]] 1 1 = Inr (ens_a', 2) \<and>
   Ensemble_eq ens_a ens_a \<and>
   \<not> Ensemble_eq ens_a ens_a' \<and>
   dot dot_1d \<lparr>ensemble = ens_a, array = [([''a''], vector [2])], ndim = 1\<rparr>
     \<lparr>ensemble = ens_a', array = [([''a''], vector [3])], ndim = 1\<rparr> = Inl ValueError"
proof -
  have h1: "new_Ensemble py_str py_int [Iterable [Obj (PyStr ''a'')]] 1 0 = Inr (ens_a, 1)"
    by (simp add: new_Ensemble_def Ensemble_init_def format_args_def add_block_def
        block_of_def deg_of_def)
  have h2: "new_Ensemble py_str py_int [Iterable [Obj (PyStr ''a'')]] 1 1 = Inr (ens_a', 2)"
    by (simp add: new_Ensemble_def Ensemble_init_def format_args_def add_block_def
        block_of_def deg_of_def)
  show ?thesis
    using h1 h2 Ensemble_identity [OF h1 h2,
      of "\<lparr>ensemble = ens_a, array = [([''a''], vector [2])], ndim = 1\<rparr>"
         "\<lparr>ensemble = ens_a', array = [([''a''], vector [3])], ndim = 1\<rparr>" dot_1d]
    by simp
qed

text \<open>
  The claim as stated fails: two Partitions constructed from the same axis
  specification have the same items and are not equal.
\<close>

theorem Ensemble_value_equality_counterexample:
  "new_Ensemble py_str py_int [Iterable [Obj (PyStr ''a'')]] 1 0 = Inr (ens_a, 1) \<and>
   new_Ensemble py_str py_int [Iterable [Obj (PyStr ''a'')]] 1 1 = Inr (ens_a', 2) \<and>
   Ensemble_iter ens_a = Ensemble_iter ens_a' \<and>
   \<not> Ensemble_eq ens_a ens_a'"
  by (simp add: new_Ensemble_def Ensemble_init_def format_args_def add_block_def
      block_of_def deg_of_def Ensemble_iter_def Ensemble_eq_def)

section \<open>Properties of the containers\<close>

subsection \<open>Loops that fill a dictionary\<close>

lemma foldE_store_Inr:
  "foldE (\<lambda>dat kx. case f kx of Inl e \<Rightarrow> Inl e | Inr v \<Rightarrow> Inr (od_set dat (fst kx) v)) acc items = Inr d
   \<Longrightarrow> \<forall>kx \<in> set items. \<exists>v. f kx = Inr v"
  by (induction items arbitrary: acc) (auto split: sum.splits)

lemma foldE_store_Inl:
  "foldE (\<lambda>dat kx. case f kx of Inl e \<Rightarrow> Inl e | Inr v \<Rightarrow> Inr (od_set dat (fst kx) v)) acc items = Inl e
   \<Longrightarrow> \<exists>kx \<in> set items. f kx = Inl e"
  by (induction items arbitrary: acc) (auto split: sum.splits)

lemma foldE_store_total:
  "\<forall>kx \<in> set items. \<exists>v. f kx = Inr v \<Longrightarrow>
   \<exists>d. foldE (\<lambda>dat kx. case f kx of Inl e \<Rightarrow> Inl e | Inr v \<Rightarrow> Inr (od_set dat (fst kx) v)) acc items = Inr d"
  by (induction items arbitrary: acc) (auto split: sum.splits)

lemma store_loop_Inr: "store_loop f items = Inr d \<Longrightarrow> \<forall>kx \<in> set items. \<exists>v. f kx = Inr v"
  unfolding store_loop_def by (rule foldE_store_Inr)

lemma store_loop_Inl: "store_loop f items = Inl e \<Longrightarrow> \<exists>kx \<in> set items. f kx = Inl e"
  unfolding store_loop_def by (rule foldE_store_Inl)

lemma store_loop_total:
  "\<forall>kx \<in> set items. \<exists>v. f kx = Inr v \<Longrightarrow> \<exists>d. store_loop f items = Inr d"
  unfolding store_loop_def by (rule foldE_store_total)

text \<open>With distinct keys the loop stores one entry per item, in the order of the items.\<close>

lemma foldE_store_distinct:
  assumes "distinct (map fst acc @ map fst items)"
    and "foldE (\<lambda>dat kx. case f kx of Inl e \<Rightarrow> Inl e | Inr v \<Rightarrow> Inr (od_set dat (fst kx) v))
           acc items = Inr d"
  shows "\<exists>d'. d = acc @ d' \<and> list_all2 (\<lambda>kx kv. fst kv = fst kx \<and> f kx = Inr (snd kv)) items d'"
  using assms
proof (induction items arbitrary: acc)
  case Nil
  then show ?case by simp
next
  case (Cons kx items)
  from Cons.prems(2) obtain v where v: "f kx = Inr v"
    by (auto split: sum.splits)
  have fresh: "fst kx \<notin> set (map fst acc)" using Cons.prems(1) by auto
  have step: "od_set acc (fst kx) v = acc @ [(fst kx, v)]"
    using fresh by (rule od_set_fresh)
  have d1: "distinct (map fst (acc @ [(fst kx, v)]) @ map fst items)"
    using Cons.prems(1) by auto
  have f1: "foldE (\<lambda>dat kx. case f kx of Inl e \<Rightarrow> Inl e | Inr v \<Rightarrow> Inr (od_set dat (fst kx) v))
           (acc @ [(fst kx, v)]) items = Inr d"
    using Cons.prems(2) v step by simp
  from Cons.IH [OF d1 f1] obtain d' where
    "d = (acc @ [(fst kx, v)]) @ d'"
    "list_all2 (\<lambda>kx kv. fst kv = fst kx \<and> f kx = Inr (snd kv)) items d'" by blast
  then have "d = acc @ ((fst kx, v) # d') \<and>
    list_all2 (\<lambda>kx kv. fst kv = fst kx \<and> f kx = Inr (snd kv)) (kx # items) ((fst kx, v) # d')"
    using v by simp
  then show ?case by blast
qed

lemma store_loop_distinct:
  assumes "distinct (map fst items)" and "store_loop f items = Inr d"
  shows "list_all2 (\<lambda>kx kv. fst kv = fst kx \<and> f kx = Inr (snd kv)) items d"
  using foldE_store_distinct [of "[]" items f d] assms by (simp add: store_loop_def)

lemma list_all2_keys:
  "list_all2 (\<lambda>kx kv. fst kv = fst kx \<and> P kx kv) items d \<Longrightarrow> map fst d = map fst items"
  by (induction rule: list_all2_induct) auto

lemma store_loop_keys:
  assumes "distinct (map fst items)" and "store_loop f items = Inr d"
  shows "map fst d = map fst items"
  using store_loop_distinct [OF assms] by (rule list_all2_keys)

lemma store_loop_lookup:
  assumes dist: "distinct (map fst items)" and run: "store_loop f items = Inr d"
    and mem: "kx \<in> set items"
  shows "\<exists>v. f kx = Inr v \<and> od_get d (fst kx) = Inr v"
proof -
  have la: "list_all2 (\<lambda>kx kv. fst kv = fst kx \<and> f kx = Inr (snd kv)) items d"
    using dist run by (rule store_loop_distinct)
  from mem obtain i where i: "i < length items" "items ! i = kx"
    by (auto simp: in_set_conv_nth)
  from la i have kv: "fst (d ! i) = fst kx" "f kx = Inr (snd (d ! i))" and len: "i < length d"
    by (auto simp: list_all2_conv_all_nth)
  have "distinct (map fst d)" using store_loop_keys [OF dist run] dist by simp
  moreover have "d ! i \<in> set d" using len by simp
  ultimately have "map_of d (fst (d ! i)) = Some (snd (d ! i))"
    by (simp add: map_of_eq_Some_iff)
  with kv show ?thesis by (simp add: od_get_def)
qed

text \<open>The check of the number of dimensions.\<close>

lemma np_unique_single:
  assumes "length (np_unique xs) = 1"
  shows "xs \<noteq> [] \<and> (\<forall>x \<in> set xs. x = np_unique xs ! 0)"
proof -
  from assms obtain v where v: "np_unique xs = [v]"
    by (cases "np_unique xs") auto
  then have "set (np_unique xs) = {v}" by simp
  then have "set xs = {v}" by (simp add: np_unique_def)
  with v show ?thesis by auto
qed

lemma np_unique_const:
  assumes "xs \<noteq> []" and "\<forall>x \<in> set xs. x = n"
  shows "np_unique xs = [n]"
proof -
  have s: "set xs = {n}" using assms by (cases xs) auto
  have "distinct (remdups xs)" by simp
  moreover have "set (remdups xs) = {n}" using s by simp
  ultimately have "length (remdups xs) = 1"
    using distinct_card [of "remdups xs"] by simp
  then obtain v where v: "remdups xs = [v]"
    by (cases "remdups xs") auto
  then have "set (remdups xs) = {v}" by simp
  with s have "v = n" by simp
  with v have "remdups xs = [n]" by simp
  then show ?thesis by (simp add: np_unique_def)
qed

lemma check_ndim_Inr:
  assumes "check_ndim ens arr = Inr a"
  shows "ensemble a = ens \<and> array a = arr \<and> arr \<noteq> [] \<and> (\<forall>kv \<in> set arr. np_ndim (snd kv) = ndim a)"
proof -
  let ?nd = "map (\<lambda>kv. np_ndim (snd kv)) arr"
  from assms have len: "length (np_unique ?nd) = 1"
    and a: "a = \<lparr>ensemble = ens, array = arr, ndim = np_unique ?nd ! 0\<rparr>"
    by (auto simp: check_ndim_def Let_def split: if_splits)
  from np_unique_single [OF len] a show ?thesis by auto
qed

lemma check_ndim_const:
  assumes "arr \<noteq> []" and "\<forall>kv \<in> set arr. np_ndim (snd kv) = n"
  shows "check_ndim ens arr = Inr \<lparr>ensemble = ens, array = arr, ndim = n\<rparr>"
proof -
  have "np_unique (map (\<lambda>kv. np_ndim (snd kv)) arr) = [n]"
    using assms by (intro np_unique_const) auto
  then show ?thesis by (simp add: check_ndim_def)
qed

lemma first_occurrences_is_distinct: "distinct (first_occurrences xs)"
  by (simp add: first_occurrences_def)

lemma Ensemble_init_distinct:
  assumes "Ensemble_init str_of int_of self args dd = Inr ens"
  shows "distinct (map fst (Ensemble_iter ens))"
proof -
  from assms obtain af where
    "ens = \<lparr>oid = self, blocks = sort (fst (foldl add_block ([], []) (product_lists af))),
            degeneracy = snd (foldl add_block ([], []) (product_lists af))\<rparr>"
    by (auto simp: Ensemble_init_def Let_def split: sum.splits)
  then show ?thesis
    by (simp add: Ensemble_iter_def foldl_add_block_keys first_occurrences_is_distinct)
qed

lemma store_loop_check_Inr:
  assumes dist: "distinct (map fst items)"
    and run: "(case store_loop f items of Inl e \<Rightarrow> Inl e | Inr arr \<Rightarrow> check_ndim ens arr) = Inr a"
  shows "ensemble a = ens \<and> map fst (array a) = map fst items \<and> items \<noteq> [] \<and>
         (\<forall>kv \<in> set (array a). np_ndim (snd kv) = ndim a) \<and>
         (\<forall>kx \<in> set items. \<exists>x. f kx = Inr x \<and> od_get (array a) (fst kx) = Inr x)"
proof -
  from run obtain arr where arr: "store_loop f items = Inr arr" and chk: "check_ndim ens arr = Inr a"
    by (auto split: sum.splits)
  from check_ndim_Inr [OF chk] have a: "ensemble a = ens" "array a = arr" "arr \<noteq> []"
    "\<forall>kv \<in> set arr. np_ndim (snd kv) = ndim a" by auto
  have keys: "map fst arr = map fst items" using dist arr by (rule store_loop_keys)
  with a(3) have ne: "items \<noteq> []" by auto
  have "\<exists>x. f kx = Inr x \<and> od_get arr (fst kx) = Inr x" if "kx \<in> set items" for kx
    using dist arr that by (rule store_loop_lookup)
  with a keys ne show ?thesis by auto
qed

lemma store_loop_check_total:
  assumes dist: "distinct (map fst items)" and ne: "items \<noteq> []"
    and ok: "\<forall>kx \<in> set items. \<exists>x. f kx = Inr x \<and> np_ndim x = n"
  shows "\<exists>a. (case store_loop f items of Inl e \<Rightarrow> Inl e | Inr arr \<Rightarrow> check_ndim ens arr) = Inr a \<and>
             ndim a = n"
proof -
  from ok have "\<forall>kx \<in> set items. \<exists>x. f kx = Inr x" by blast
  from store_loop_total [OF this] obtain arr where arr: "store_loop f items = Inr arr" by blast
  have la: "list_all2 (\<lambda>kx kv. fst kv = fst kx \<and> f kx = Inr (snd kv)) items arr"
    using dist arr by (rule store_loop_distinct)
  have nd: "np_ndim (snd kv) = n" if "kv \<in> set arr" for kv
  proof -
    from that obtain i where i: "i < length arr" "arr ! i = kv" by (auto simp: in_set_conv_nth)
    with la have "f (items ! i) = Inr (snd kv)" "items ! i \<in> set items"
      by (auto simp: list_all2_conv_all_nth)
    with ok show ?thesis by fastforce
  qed
  have "arr \<noteq> []" using la ne by (auto simp: list_all2_conv_all_nth)
  from check_ndim_const [OF this, of n ens] nd arr show ?thesis by simp
qed

lemma Array_init_Inr:
  assumes "distinct (map fst (Ensemble_iter ens))" and "Array_init ens dat = Inr a"
  shows "ensemble a = ens \<and> map fst (array a) = map fst (Ensemble_iter ens) \<and>
         Ensemble_iter ens \<noteq> [] \<and>
         (\<forall>kv \<in> set (array a). np_ndim (snd kv) = ndim a) \<and>
         (\<forall>bd \<in> set (Ensemble_iter ens).
            \<exists>x. od_get dat (fst bd) = Inr x \<and> od_get (array a) (fst bd) = Inr x)"
  using store_loop_check_Inr [OF assms(1) assms(2) [unfolded Array_init_def]]
  by (simp add: case_prod_beta)

subsection \<open>dot\<close>

text \<open>
  Claim C8, as amended. For every pair of Array containers whose Partitions are not
  equal by the test \<open>!=\<close> of the code, which compares identities, \<open>dot\<close> raises
  \<open>ValueError\<close>, whatever the arrays of the blocks are and whatever \<open>numpy.dot\<close> would
  do on them: the check comes before any work on a block. For two containers
  constructed over one and the same Partition object, whenever \<open>numpy.dot\<close> succeeds
  on every block and its results have one number of dimensions, \<open>dot\<close> returns a new
  container over that Partition whose keys are in the order of iteration of the
  Partition and whose entry for each block is the product of the two entries of that
  block.
\<close>

theorem dot_checks_partition_first:
  assumes ens: "Ensemble_init str_of int_of self args dd = Inr ens"
  shows "(Ensemble_ne (ensemble a) (ensemble b) \<longrightarrow> dot npdot a b = Inl ValueError) \<and>
         (Array_init ens dat_a = Inr a \<and> Array_init ens dat_b = Inr b \<and>
          (\<forall>block x y. od_get (array a) block = Inr x \<and> od_get (array b) block = Inr y \<longrightarrow>
               (\<exists>z. npdot x y = Inr z \<and> np_ndim z = n)) \<longrightarrow>
          (\<exists>c. dot npdot a b = Inr c \<and> ensemble c = ens \<and> ndim c = n \<and>
               map fst (array c) = map fst (Ensemble_iter ens) \<and>
               (\<forall>block \<in> set (map fst (Ensemble_iter ens)).
                  \<exists>x y z. od_get (array a) block = Inr x \<and> od_get (array b) block = Inr y \<and>
                    npdot x y = Inr z \<and> od_get (array c) block = Inr z)))"
proof (intro conjI impI)
  assume "Ensemble_ne (ensemble a) (ensemble b)"
  then show "dot npdot a b = Inl ValueError" by (simp add: dot_def)
next
  assume asm: "Array_init ens dat_a = Inr a \<and> Array_init ens dat_b = Inr b \<and>
          (\<forall>block x y. od_get (array a) block = Inr x \<and> od_get (array b) block = Inr y \<longrightarrow>
               (\<exists>z. npdot x y = Inr z \<and> np_ndim z = n))"
  let ?items = "Ensemble_iter ens"
  let ?f = "\<lambda>(block, deg). case od_get (array a) block of
                      Inl e \<Rightarrow> Inl e
                    | Inr x \<Rightarrow> (case od_get (array b) block of
                                  Inl e \<Rightarrow> Inl e
                                | Inr y \<Rightarrow> npdot x y)"
  have dist: "distinct (map fst ?items)" using ens by (rule Ensemble_init_distinct)
  from asm have A: "Array_init ens dat_a = Inr a" and B: "Array_init ens dat_b = Inr b"
    and D: "\<And>block x y. od_get (array a) block = Inr x \<Longrightarrow> od_get (array b) block = Inr y \<Longrightarrow>
               \<exists>z. npdot x y = Inr z \<and> np_ndim z = n" by blast+
  note IA = Array_init_Inr [OF dist A] and IB = Array_init_Inr [OF dist B]
  have ea: "ensemble a = ens" and eb: "ensemble b = ens" and ne: "?items \<noteq> []"
    using IA IB by auto
  have blk: "\<exists>x y z. od_get (array a) (fst bd) = Inr x \<and> od_get (array b) (fst bd) = Inr y \<and>
               npdot x y = Inr z \<and> np_ndim z = n \<and> ?f bd = Inr z" if "bd \<in> set ?items" for bd
  proof -
    from IA that obtain x where x: "od_get (array a) (fst bd) = Inr x" by blast
    from IB that obtain y where y: "od_get (array b) (fst bd) = Inr y" by blast
    from D [OF x y] obtain z where "npdot x y = Inr z" "np_ndim z = n" by blast
    with x y show ?thesis by (auto simp: case_prod_beta)
  qed
  then have ok: "\<forall>kx \<in> set ?items. \<exists>z. ?f kx = Inr z" by blast
  from store_loop_total [OF this] obtain dat where dat: "store_loop ?f ?items = Inr dat" by blast
  have look: "\<exists>z. ?f bd = Inr z \<and> od_get dat (fst bd) = Inr z" if "bd \<in> set ?items" for bd
    using dist dat that by (rule store_loop_lookup)
  have ok2: "\<forall>kx \<in> set ?items. \<exists>z. (\<lambda>(block, deg). od_get dat block) kx = Inr z \<and> np_ndim z = n"
  proof
    fix kx assume m: "kx \<in> set ?items"
    from look [OF m] blk [OF m] show "\<exists>z. (\<lambda>(block, deg). od_get dat block) kx = Inr z \<and> np_ndim z = n"
      by (auto simp: case_prod_beta)
  qed
  from store_loop_check_total [OF dist ne ok2, of ens] obtain c where
    c: "Array_init ens dat = Inr c" and nc: "ndim c = n"
    by (auto simp: Array_init_def)
  note IC = Array_init_Inr [OF dist c]
  have run: "dot npdot a b = Inr c"
    using dat c ea eb by (simp add: dot_def Ensemble_ne_def Ensemble_eq_def)
  have per: "\<exists>x y z. od_get (array a) block = Inr x \<and> od_get (array b) block = Inr y \<and>
                    npdot x y = Inr z \<and> od_get (array c) block = Inr z"
    if "block \<in> set (map fst ?items)" for block
  proof -
    from that obtain bd where m: "bd \<in> set ?items" and k: "fst bd = block" by auto
    from blk [OF m] look [OF m] IC m k show ?thesis by fastforce
  qed
  from run IC nc per
  show "\<exists>c. dot npdot a b = Inr c \<and> ensemble c = ens \<and> ndim c = n \<and>
               map fst (array c) = map fst (Ensemble_iter ens) \<and>
               (\<forall>block \<in> set (map fst (Ensemble_iter ens)).
                  \<exists>x y z. od_get (array a) block = Inr x \<and> od_get (array b) block = Inr y \<and>
                    npdot x y = Inr z \<and> od_get (array c) block = Inr z)"
    by blast
qed

theorem dot_checks_partition_first_witness:
  "Ensemble_init py_str py_int 0 [Iterable [Obj (PyStr ''a''), Obj (PyStr ''b'')]] 1 = Inr ens_ab \<and>
   Array_init ens_ab [([''a''], vector [1, 2 :: int]), ([''b''], vector [3])] =
     Inr \<lparr>ensemble = ens_ab, array = [([''a''], vector [1, 2 :: int]), ([''b''], vector [3])], ndim = 1\<rparr> \<and>
   Array_init ens_ab [([''a''], vector [4, 5 :: int]), ([''b''], vector [6])] =
     Inr \<lparr>ensemble = ens_ab, array = [([''a''], vector [4, 5 :: int]), ([''b''], vector [6])], ndim = 1\<rparr> \<and>
   dot dot_1d
     \<lparr>ensemble = ens_ab, array = [([''a''], vector [1, 2 :: int]), ([''b''], vector [3])], ndim = 1\<rparr>
     \<lparr>ensemble = ens_ab, array = [([''a''], vector [4, 5 :: int]), ([''b''], vector [6])], ndim = 1\<rparr> =
     Inr \<lparr>ensemble = ens_ab,
          array = [([''a''], \<lparr>shape = [], entries = [14]\<rparr>),
                   ([''b''], \<lparr>shape = [], entries = [18]\<rparr>)], ndim = 0\<rparr> \<and>
   Ensemble_ne ens_ab ens_ab' \<and>
   dot dot_1d
     \<lparr>ensemble = ens_ab, array = [([''a''], vector [1, 2 :: int]), ([''b''], vector [3])], ndim = 1\<rparr>
     \<lparr>ensemble = ens_ab', array = [([''a''], vector [4, 5 :: int]), ([''b''], vector [6])], ndim = 1\<rparr> =
     Inl ValueError"
proof -
  let ?A = "\<lparr>ensemble = ens_ab, array = [([''a''], vector [1, 2 :: int]), ([''b''], vector [3])],
             ndim = 1\<rparr>"
  let ?B = "\<lparr>ensemble = ens_ab, array = [([''a''], vector [4, 5 :: int]), ([''b''], vector [6])],
             ndim = 1\<rparr>"
  let ?B' = "\<lparr>ensemble = ens_ab', array = [([''a''], vector [4, 5 :: int]), ([''b''], vector [6])],
             ndim = 1\<rparr>"
  have e: "Ensemble_init py_str py_int 0 [Iterable [Obj (PyStr ''a''), Obj (PyStr ''b'')]] 1 =
             Inr ens_ab"
    by (simp add: Ensemble_init_def format_args_def add_block_def block_of_def deg_of_def)
  have a: "Array_init ens_ab [([''a''], vector [1, 2 :: int]), ([''b''], vector [3])] = Inr ?A"
    by (simp add: Array_init_def store_loop_def Ensemble_iter_def od_get_def check_ndim_def
        np_unique_def np_ndim_def)
  have b: "Array_init ens_ab [([''a''], vector [4, 5 :: int]), ([''b''], vector [6])] = Inr ?B"
    by (simp add: Array_init_def store_loop_def Ensemble_iter_def od_get_def check_ndim_def
        np_unique_def np_ndim_def)
  have d: "\<forall>block x y. od_get (array ?A) block = Inr x \<and> od_get (array ?B) block = Inr y \<longrightarrow>
       (\<exists>z. dot_1d x y = Inr z \<and> np_ndim z = 0)"
    by (auto simp: od_get_def np_ndim_def dot_1d_def split: if_splits)
  have ne: "Ensemble_ne (ensemble ?A) (ensemble ?B')"
    by (simp add: Ensemble_ne_def Ensemble_eq_def)
  have r1: "dot dot_1d ?A ?B' = Inl ValueError"
    using dot_checks_partition_first [OF e, of ?A ?B' dot_1d] ne by blast
  have "\<exists>c. dot dot_1d ?A ?B = Inr c \<and> ensemble c = ens_ab \<and> ndim c = 0 \<and>
          map fst (array c) = map fst (Ensemble_iter ens_ab) \<and>
          (\<forall>block \<in> set (map fst (Ensemble_iter ens_ab)).
             \<exists>x y z. od_get (array ?A) block = Inr x \<and> od_get (array ?B) block = Inr y \<and>
               dot_1d x y = Inr z \<and> od_get (array c) block = Inr z)"
    using dot_checks_partition_first [OF e, of ?A ?B dot_1d _ _ 0] a b d by blast
  then obtain c where c: "dot dot_1d ?A ?B = Inr c" "ensemble c = ens_ab" "ndim c = 0"
      "map fst (array c) = [[''a''], [''b'']]"
      "\<exists>x y z. od_get (array ?A) [''a''] = Inr x \<and> od_get (array ?B) [''a''] = Inr y \<and>
               dot_1d x y = Inr z \<and> od_get (array c) [''a''] = Inr z"
      "\<exists>x y z. od_get (array ?A) [''b''] = Inr x \<and> od_get (array ?B) [''b''] = Inr y \<and>
               dot_1d x y = Inr z \<and> od_get (array c) [''b''] = Inr z"
    by (auto simp: Ensemble_iter_def)
  from c(5) have ca: "od_get (array c) [''a''] = Inr \<lparr>shape = [], entries = [14]\<rparr>"
    by (auto simp: od_get_def dot_1d_def)
  from c(6) have cb: "od_get (array c) [''b''] = Inr \<lparr>shape = [], entries = [18]\<rparr>"
    by (auto simp: od_get_def dot_1d_def)
  from c(4) obtain va vb where arr: "array c = [([''a''], va), ([''b''], vb)]"
    by (cases "array c"; cases "tl (array c)") auto
  with ca cb have "array c = [([''a''], \<lparr>shape = [], entries = [14]\<rparr>),
      ([''b''], \<lparr>shape = [], entries = [18]\<rparr>)]"
    by (simp add: od_get_def)
  with c(2,3) have "c = \<lparr>ensemble = ens_ab,
          array = [([''a''], \<lparr>shape = [], entries = [14]\<rparr>),
                   ([''b''], \<lparr>shape = [], entries = [18]\<rparr>)], ndim = 0\<rparr>"
    by (cases c) simp
  with c(1) e a b ne r1 show ?thesis by simp
qed

text \<open>
  The claim as stated fails: two Partitions constructed from the same axis
  specification have the same block keys with the same degeneracies, \<open>numpy.dot\<close>
  succeeds on every block, and \<open>dot\<close> raises \<open>ValueError\<close>.
\<close>

theorem dot_equal_mappings_counterexample:
  "new_Ensemble py_str py_int [Iterable [Obj (PyStr ''a''), Obj (PyStr ''b'')]] 1 0 =
     Inr (ens_ab, 1) \<and>
   new_Ensemble py_str py_int [Iterable [Obj (PyStr ''a''), Obj (PyStr ''b'')]] 1 1 =
     Inr (ens_ab', 2) \<and>
   Ensemble_iter ens_ab = Ensemble_iter ens_ab' \<and>
   Array_init ens_ab [([''a''], vector [1, 2 :: int]), ([''b''], vector [3])] =
     Inr \<lparr>ensemble = ens_ab, array = [([''a''], vector [1, 2]), ([''b''], vector [3])], ndim = 1\<rparr> \<and>
   Array_init ens_ab' [([''a''], vector [4, 5 :: int]), ([''b''], vector [6])] =
     Inr \<lparr>ensemble = ens_ab', array = [([''a''], vector [4, 5]), ([''b''], vector [6])], ndim = 1\<rparr> \<and>
   dot_1d (vector [1, 2]) (vector [4, 5]) = Inr \<lparr>shape = [], entries = [14]\<rparr> \<and>
   dot_1d (vector [3]) (vector [6]) = Inr \<lparr>shape = [], entries = [18]\<rparr> \<and>
   dot dot_1d
     \<lparr>ensemble = ens_ab, array = [([''a''], vector [1, 2 :: int]), ([''b''], vector [3])], ndim = 1\<rparr>
     \<lparr>ensemble = ens_ab', array = [([''a''], vector [4, 5 :: int]), ([''b''], vector [6])], ndim = 1\<rparr> =
     Inl ValueError"
  by (simp add: new_Ensemble_def Ensemble_init_def format_args_def add_block_def block_of_def
      deg_of_def Ensemble_iter_def Array_init_def store_loop_def od_get_def check_ndim_def
      np_unique_def np_ndim_def dot_1d_def dot_def Ensemble_ne_def Ensemble_eq_def)

subsection \<open>Negation of a scalar container\<close>



text \<open>A container of numbers: the loop ends and the lookup of \<open>Array\<close> raises.\<close>

lemma Scalar_neg_numbers:
  "Scalar_neg neg_scalar \<lparr>ensemble = ens_a, scalar = [([''a''], Some (PyNumber 3))]\<rparr> =
     Inl NameError"
  by (simp add: Scalar_neg_def store_loop_def py_neg_def)

subsection \<open>Indexing an array container\<close>

text \<open>
  Claim C7, evaluated. A container of 2-dimensional arrays whose only block is empty
  (shape \<open>(0, 0)\<close>), indexed with the full slice: the block of the result has shape
  \<open>(0,)\<close> and the result has one dimension, not two. With a second, non-empty block
  the same index raises \<open>ValueError\<close> in the constructor of the result.
\<close>

theorem Array_getitem_empty_block_ndim:
  "Array_init ens_a
       [([''a''], \<lparr>shape = [0, 0], entries = [] :: int list\<rparr>)] =
     Inr \<lparr>ensemble = ens_a,
          array = [([''a''], \<lparr>shape = [0, 0], entries = []\<rparr>)], ndim = 2\<rparr> \<and>
   Array_getitem
       \<lparr>ensemble = ens_a,
        array = [([''a''], \<lparr>shape = [0, 0], entries = [] :: int list\<rparr>)], ndim = 2\<rparr> SliceAll =
     Inr \<lparr>ensemble = ens_a,
          array = [([''a''], \<lparr>shape = [0], entries = []\<rparr>)], ndim = 1\<rparr> \<and>
   Array_getitem
       \<lparr>ensemble = \<lparr>oid = 0, blocks = [[''a''], [''b'']],
                     degeneracy = [([''a''], 1), ([''b''], 1)]\<rparr>,
        array = [([''a''], \<lparr>shape = [0, 0], entries = [] :: int list\<rparr>),
                 ([''b''], \<lparr>shape = [1, 1], entries = [5]\<rparr>)], ndim = 2\<rparr> SliceAll =
     Inl ValueError"
  by (simp add: Array_init_def Array_getitem_def store_loop_def Ensemble_iter_def od_get_def
      check_ndim_def np_unique_def np_ndim_def np_len_def np_empty_def)

subsection \<open>Multiplication by a container\<close>

text \<open>
  Claim C9, evaluated. The container over \<open>Ensemble(["a"])\<close> with the array \<open>[1, 2]\<close>,
  multiplied by itself: \<open>Array.__mul__\<close> raises \<open>IndexError\<close>, because \<open>other[block]\<close>
  indexes the arrays of \<open>other\<close> with the block key; \<open>EnsembleArray.__mul__\<close> raises
  \<open>TypeError\<close>.
\<close>

theorem Array_mul_by_Array_raises:
  "Array_init ens_a
       [([''a''], \<lparr>shape = [2], entries = [1, 2 :: int]\<rparr>)] =
     Inr \<lparr>ensemble = ens_a,
          array = [([''a''], \<lparr>shape = [2], entries = [1, 2]\<rparr>)], ndim = 1\<rparr> \<and>
   Array_mul np_mul
       \<lparr>ensemble = ens_a,
        array = [([''a''], \<lparr>shape = [2], entries = [1, 2 :: int]\<rparr>)], ndim = 1\<rparr>
       (ArrayOp \<lparr>ensemble = ens_a,
        array = [([''a''], \<lparr>shape = [2], entries = [1, 2 :: int]\<rparr>)], ndim = 1\<rparr>) =
     Inl IndexError \<and>
   EnsembleArray_mul np_mul
       \<lparr>ensemble = ens_a,
        array = [([''a''], \<lparr>shape = [2], entries = [1, 2 :: int]\<rparr>)], ndim = 1\<rparr>
       (ArrayOp \<lparr>ensemble = ens_a,
        array = [([''a''], \<lparr>shape = [2], entries = [1, 2 :: int]\<rparr>)], ndim = 1\<rparr>) =
     Inl TypeError"
  by (simp add: Array_init_def Array_getitem_def store_loop_def Ensemble_iter_def od_get_def
      check_ndim_def np_unique_def np_ndim_def np_len_def Array_mul_def EnsembleArray_mul_def
      operand_getitem_def)

section \<open>Properties of the tridiagonal container\<close>

subsection \<open>The constructor\<close>

lemma od_set_map_snd:
  "map (\<lambda>kp. (fst kp, g (snd kp))) (od_set d k v) = od_set (map (\<lambda>kp. (fst kp, g (snd kp))) d) k (g v)"
  by (induction d) auto

lemma od_get_map_snd:
  "od_get (map (\<lambda>kp. (fst kp, g (snd kp))) d) k =
     (case od_get d k of Inl e \<Rightarrow> Inl e | Inr v \<Rightarrow> Inr (g v))"
  by (induction d) (auto simp: od_get_def)

lemma foldE_tridiag_step:
  "foldE (tridiag_step A B)
      (map (\<lambda>kp. (fst kp, fst (snd kp))) acc, map (\<lambda>kp. (fst kp, snd (snd kp))) acc) items =
   (case foldE (\<lambda>dat kx. case tridiag_entry A B kx of
                   Inl e \<Rightarrow> Inl e | Inr v \<Rightarrow> Inr (od_set dat (fst kx) v)) acc items of
      Inl e \<Rightarrow> Inl e
    | Inr pd \<Rightarrow> Inr (map (\<lambda>kp. (fst kp, fst (snd kp))) pd, map (\<lambda>kp. (fst kp, snd (snd kp))) pd))"
proof (induction items arbitrary: acc)
  case Nil
  show ?case by simp
next
  case (Cons bd items)
  show ?case
  proof (cases "tridiag_entry A B bd")
    case (Inl e)
    then show ?thesis by (simp add: tridiag_step_def)
  next
    case (Inr p)
    obtain d od where p: "p = (d, od)" by (cases p)
    have "foldE (tridiag_step A B)
      (map (\<lambda>kp. (fst kp, fst (snd kp))) acc, map (\<lambda>kp. (fst kp, snd (snd kp))) acc) (bd # items) =
      foldE (tridiag_step A B)
      (map (\<lambda>kp. (fst kp, fst (snd kp))) (od_set acc (fst bd) p),
       map (\<lambda>kp. (fst kp, snd (snd kp))) (od_set acc (fst bd) p)) items"
      using Inr p by (simp add: tridiag_step_def od_set_map_snd)
    also note Cons.IH
    finally show ?thesis using Inr by simp
  qed
qed

lemma EnsembleTriDiag_init_loop:
  "EnsembleTriDiag_init ens dat diag_tag offdiag_tag =
     (case Array_init_tag ens dat diag_tag of
        Inl e \<Rightarrow> Inl e
      | Inr ens_diag \<Rightarrow>
          (case Array_init_tag ens dat offdiag_tag of
             Inl e \<Rightarrow> Inl e
           | Inr ens_offdiag \<Rightarrow>
               (case store_loop (tridiag_entry ens_diag ens_offdiag) (Ensemble_iter ens) of
                  Inl e \<Rightarrow> Inl e
                | Inr pd \<Rightarrow> Inr \<lparr>ensemble = ens,
                                 diag = map (\<lambda>kp. (fst kp, fst (snd kp))) pd,
                                 offdiag = map (\<lambda>kp. (fst kp, snd (snd kp))) pd\<rparr>)))"
proof -
  have "foldE (tridiag_step A B) ([], []) items =
     (case store_loop (tridiag_entry A B) items of
        Inl e \<Rightarrow> Inl e
      | Inr pd \<Rightarrow> Inr (map (\<lambda>kp. (fst kp, fst (snd kp))) pd,
                       map (\<lambda>kp. (fst kp, snd (snd kp))) pd))" for A B :: "'a Array" and items
    using foldE_tridiag_step [of A B "[]" items] by (simp add: store_loop_def)
  then show ?thesis
    by (simp add: EnsembleTriDiag_init_def split: sum.splits)
qed

lemma Array_init_tag_entry:
  assumes dist: "distinct (map fst (Ensemble_iter ens))"
    and run: "Array_init_tag ens dat tag = Inr a"
    and mem: "bd \<in> set (Ensemble_iter ens)"
  shows "\<exists>x. od_get (array a) (fst bd) = Inr x \<and> np_flatten x = flat_entry dat tag (fst bd)"
proof -
  let ?f = "\<lambda>(block, deg). case od_get dat block of Inl e \<Rightarrow> Inl e | Inr d \<Rightarrow> od_get d tag"
  from store_loop_check_Inr [OF dist run [unfolded Array_init_tag_def]] mem
  obtain x where x: "?f bd = Inr x" "od_get (array a) (fst bd) = Inr x" by blast
  from x(1) have "np_flatten x = flat_entry dat tag (fst bd)"
    by (auto simp: flat_entry_def case_prod_beta split: sum.splits)
  with x(2) show ?thesis by blast
qed

lemma tridiag_entry_flat:
  assumes dist: "distinct (map fst (Ensemble_iter ens))"
    and dg: "Array_init_tag ens dat diag_tag = Inr ens_diag"
    and og: "Array_init_tag ens dat offdiag_tag = Inr ens_offdiag"
    and mem: "bd \<in> set (Ensemble_iter ens)"
  shows "tridiag_entry ens_diag ens_offdiag bd =
           tridiag_block (flat_entry dat diag_tag (fst bd)) (flat_entry dat offdiag_tag (fst bd))"
  using Array_init_tag_entry [OF dist dg mem] Array_init_tag_entry [OF dist og mem]
  by (auto simp: tridiag_entry_def)

lemma tridiag_block_Inr:
  "tridiag_block d od = Inr p \<longleftrightarrow>
     (length d = length od \<or> length d = length od + 1) \<and>
     p = (d, if length d = length od then butlast od else od)"
  by (auto simp: tridiag_block_def)

lemma tridiag_block_Inl:
  "tridiag_block d od = Inl e \<longleftrightarrow>
     \<not> (length d = length od \<or> length d = length od + 1) \<and> e = ValueError"
  by (auto simp: tridiag_block_def)

text \<open>
  Claim C4, as amended. When the two intermediate containers (diagonal and
  off-diagonal) are constructed, the constructor accepts the data exactly when the
  flattened vectors of every block satisfy \<open>len(d) == len(od)\<close> or
  \<open>len(d) == len(od) + 1\<close>, and raises \<open>ValueError\<close> otherwise. On success every block
  holds the flattened diagonal and the off-diagonal, with its last entry dropped when
  the two lengths were equal; every block with a non-empty diagonal satisfies
  \<open>len(offdiag) == len(diag) - 1\<close>, and a block with an empty diagonal has an empty
  off-diagonal.
\<close>

theorem EnsembleTriDiag_init_normalizes:
  assumes ens: "Ensemble_init str_of int_of self args dd = Inr ens"
    and dg: "Array_init_tag ens dat diag_tag = Inr ens_diag"
    and og: "Array_init_tag ens dat offdiag_tag = Inr ens_offdiag"
  shows "if \<forall>block \<in> set (map fst (Ensemble_iter ens)).
              length (flat_entry dat diag_tag block) = length (flat_entry dat offdiag_tag block) \<or>
              length (flat_entry dat diag_tag block) = length (flat_entry dat offdiag_tag block) + 1
         then \<exists>t. EnsembleTriDiag_init ens dat diag_tag offdiag_tag = Inr t \<and>
                ensemble t = ens \<and>
                map fst (diag t) = map fst (Ensemble_iter ens) \<and>
                map fst (offdiag t) = map fst (Ensemble_iter ens) \<and>
                (\<forall>block \<in> set (map fst (Ensemble_iter ens)).
                   \<exists>d od. od_get (diag t) block = Inr d \<and> od_get (offdiag t) block = Inr od \<and>
                     d = flat_entry dat diag_tag block \<and>
                     od = (if length d = length (flat_entry dat offdiag_tag block)
                           then butlast (flat_entry dat offdiag_tag block)
                           else flat_entry dat offdiag_tag block) \<and>
                     (d \<noteq> [] \<longrightarrow> int (length od) = int (length d) - 1) \<and>
                     (d = [] \<longrightarrow> od = []))
         else EnsembleTriDiag_init ens dat diag_tag offdiag_tag = Inl ValueError"
proof -
  let ?items = "Ensemble_iter ens"
  let ?D = "flat_entry dat diag_tag" and ?O = "flat_entry dat offdiag_tag"
  let ?f = "tridiag_entry ens_diag ens_offdiag"
  have dist: "distinct (map fst ?items)" using ens by (rule Ensemble_init_distinct)
  have entry: "?f bd = tridiag_block (?D (fst bd)) (?O (fst bd))" if "bd \<in> set ?items" for bd
    using dist dg og that by (rule tridiag_entry_flat)
  have init: "EnsembleTriDiag_init ens dat diag_tag offdiag_tag =
      (case store_loop ?f ?items of
         Inl e \<Rightarrow> Inl e
       | Inr pd \<Rightarrow> Inr \<lparr>ensemble = ens,
                        diag = map (\<lambda>kp. (fst kp, fst (snd kp))) pd,
                        offdiag = map (\<lambda>kp. (fst kp, snd (snd kp))) pd\<rparr>)"
    using dg og by (simp add: EnsembleTriDiag_init_loop)
  show ?thesis
  proof (cases "\<forall>block \<in> set (map fst ?items).
              length (?D block) = length (?O block) \<or> length (?D block) = length (?O block) + 1")
    case True
    have ok: "\<forall>bd \<in> set ?items. \<exists>p. ?f bd = Inr p"
    proof
      fix bd assume m: "bd \<in> set ?items"
      then have "fst bd \<in> set (map fst ?items)" by simp
      with True have "length (?D (fst bd)) = length (?O (fst bd)) \<or>
          length (?D (fst bd)) = length (?O (fst bd)) + 1" by blast
      with entry [OF m] show "\<exists>p. ?f bd = Inr p"
        by (simp add: tridiag_block_Inr)
    qed
    from store_loop_total [OF ok] obtain pd where pd: "store_loop ?f ?items = Inr pd" by blast
    let ?t = "\<lparr>ensemble = ens, diag = map (\<lambda>kp. (fst kp, fst (snd kp))) pd,
                offdiag = map (\<lambda>kp. (fst kp, snd (snd kp))) pd\<rparr>"
    have t: "EnsembleTriDiag_init ens dat diag_tag offdiag_tag = Inr ?t"
      using init pd by simp
    have keys: "map fst pd = map fst ?items" using dist pd by (rule store_loop_keys)
    have kd: "map fst (diag ?t) = map fst ?items" and ko: "map fst (offdiag ?t) = map fst ?items"
      using keys by (simp_all add: comp_def)
    have per: "\<exists>d od. od_get (diag ?t) block = Inr d \<and> od_get (offdiag ?t) block = Inr od \<and>
                     d = ?D block \<and>
                     od = (if length d = length (?O block) then butlast (?O block) else ?O block) \<and>
                     (d \<noteq> [] \<longrightarrow> int (length od) = int (length d) - 1) \<and>
                     (d = [] \<longrightarrow> od = [])"
      if "block \<in> set (map fst ?items)" for block
    proof -
      from that obtain bd where m: "bd \<in> set ?items" and k: "fst bd = block" by auto
      from store_loop_lookup [OF dist pd m] obtain p where
        p: "?f bd = Inr p" "od_get pd block = Inr p" using k by blast
      from p(1) entry [OF m] k have
        c: "length (?D block) = length (?O block) \<or> length (?D block) = length (?O block) + 1"
        and pv: "p = (?D block, if length (?D block) = length (?O block)
                                then butlast (?O block) else ?O block)"
        by (simp_all add: tridiag_block_Inr)
      have g1: "od_get (diag ?t) block = Inr (fst p)" and g2: "od_get (offdiag ?t) block = Inr (snd p)"
        using p(2) by (simp_all add: od_get_map_snd)
      have l1: "?D block \<noteq> [] \<longrightarrow> int (length (snd p)) = int (length (?D block)) - 1"
        using c pv by (cases "?O block") (auto split: if_splits)
      have l2: "?D block = [] \<longrightarrow> snd p = []"
        using c pv by auto
      from g1 g2 pv l1 l2 show ?thesis by simp
    qed
    from t kd ko per True show ?thesis by (simp del: set_map)
  next
    case False
    then obtain bd where m: "bd \<in> set ?items"
      and bad: "\<not> (length (?D (fst bd)) = length (?O (fst bd)) \<or>
                   length (?D (fst bd)) = length (?O (fst bd)) + 1)" by auto
    have "\<exists>e. store_loop ?f ?items = Inl e"
    proof (cases "store_loop ?f ?items")
      case (Inl e)
      then show ?thesis by blast
    next
      case (Inr pd)
      from store_loop_Inr [OF this] m obtain p where "?f bd = Inr p" by blast
      with entry [OF m] have "tridiag_block (?D (fst bd)) (?O (fst bd)) = Inr p" by simp
      with bad show ?thesis by (simp add: tridiag_block_Inr)
    qed
    then obtain e where e: "store_loop ?f ?items = Inl e" by blast
    from store_loop_Inl [OF e] obtain kx where "kx \<in> set ?items" "?f kx = Inl e" by blast
    with entry have "tridiag_block (?D (fst kx)) (?O (fst kx)) = Inl e" by simp
    then have "e = ValueError" by (simp add: tridiag_block_Inl)
    with e init False show ?thesis by simp
  qed
qed

theorem EnsembleTriDiag_init_normalizes_witness:
  "Ensemble_init py_str py_int 0 [Iterable [Obj (PyStr ''a''), Obj (PyStr ''b'')]] 1 = Inr ens_ab \<and>
   Array_init_tag ens_ab
       [([''a''], [(''diag'', vector [1, 2, 3 :: int]), (''offdiag'', vector [5, 6, 7])]),
        ([''b''], [(''diag'', vector [9]), (''offdiag'', vector [])])] ''diag'' =
     Inr \<lparr>ensemble = ens_ab, array = [([''a''], vector [1, 2, 3]), ([''b''], vector [9])],
          ndim = 1\<rparr> \<and>
   Array_init_tag ens_ab
       [([''a''], [(''diag'', vector [1, 2, 3 :: int]), (''offdiag'', vector [5, 6, 7])]),
        ([''b''], [(''diag'', vector [9]), (''offdiag'', vector [])])] ''offdiag'' =
     Inr \<lparr>ensemble = ens_ab, array = [([''a''], vector [5, 6, 7]), ([''b''], vector [])],
          ndim = 1\<rparr> \<and>
   (\<exists>t. EnsembleTriDiag_init ens_ab
       [([''a''], [(''diag'', vector [1, 2, 3 :: int]), (''offdiag'', vector [5, 6, 7])]),
        ([''b''], [(''diag'', vector [9]), (''offdiag'', vector [])])] ''diag'' ''offdiag'' = Inr t \<and>
      od_get (diag t) [''a''] = Inr [1, 2, 3] \<and> od_get (offdiag t) [''a''] = Inr [5, 6] \<and>
      od_get (diag t) [''b''] = Inr [9] \<and> od_get (offdiag t) [''b''] = Inr [])"
proof -
  let ?dat = "[([''a''], [(''diag'', vector [1, 2, 3 :: int]), (''offdiag'', vector [5, 6, 7])]),
        ([''b''], [(''diag'', vector [9]), (''offdiag'', vector [])])]"
  have e: "Ensemble_init py_str py_int 0 [Iterable [Obj (PyStr ''a''), Obj (PyStr ''b'')]] 1 =
             Inr ens_ab"
    by (simp add: Ensemble_init_def format_args_def add_block_def block_of_def deg_of_def)
  have dg: "Array_init_tag ens_ab ?dat ''diag'' =
     Inr \<lparr>ensemble = ens_ab, array = [([''a''], vector [1, 2, 3]), ([''b''], vector [9])],
          ndim = 1\<rparr>"
    by (simp add: Array_init_tag_def store_loop_def Ensemble_iter_def od_get_def check_ndim_def
        np_unique_def np_ndim_def)
  have og: "Array_init_tag ens_ab ?dat ''offdiag'' =
     Inr \<lparr>ensemble = ens_ab, array = [([''a''], vector [5, 6, 7]), ([''b''], vector [])],
          ndim = 1\<rparr>"
    by (simp add: Array_init_tag_def store_loop_def Ensemble_iter_def od_get_def check_ndim_def
        np_unique_def np_ndim_def)
  show ?thesis
    using e dg og EnsembleTriDiag_init_normalizes [OF e dg og]
    by (auto simp: Ensemble_iter_def flat_entry_def od_get_def np_flatten_def)
qed

text \<open>
  The claim as stated fails on a block of length zero: nothing is trimmed, and
  \<open>len(offdiag) = 0\<close> is not \<open>len(diag) - 1 = -1\<close>.
\<close>

theorem EnsembleTriDiag_empty_block_counterexample:
  "EnsembleTriDiag_init ens_a
       [([''a''], [(''diag'', vector ([] :: int list)), (''offdiag'', vector [])])]
       ''diag'' ''offdiag'' =
     Inr \<lparr>ensemble = ens_a, diag = [([''a''], [])], offdiag = [([''a''], [])]\<rparr> \<and>
   od_get (diag \<lparr>ensemble = ens_a, diag = [([''a''], [] :: int list)],
                 offdiag = [([''a''], [])]\<rparr>) [''a''] = Inr [] \<and>
   od_get (offdiag \<lparr>ensemble = ens_a, diag = [([''a''], [] :: int list)],
                    offdiag = [([''a''], [])]\<rparr>) [''a''] = Inr [] \<and>
   int (length ([] :: int list)) \<noteq> int (length ([] :: int list)) - 1"
  by (simp add: EnsembleTriDiag_init_def Array_init_tag_def store_loop_def Ensemble_iter_def
      od_get_def check_ndim_def np_unique_def np_ndim_def tridiag_step_def tridiag_entry_def
      tridiag_block_def np_flatten_def)

subsection \<open>The sum of the three diagonals\<close>

lemma mat_at_square:
  assumes "i < n" and "j < n"
  shows "mat_at \<lparr>nrows = n, ncols = n, rows = map (\<lambda>i. map (\<lambda>j. g i j) [0..<n]) [0..<n]\<rparr> i j
           = g i j"
proof (cases "n = 1")
  case True
  with assms show ?thesis by (simp add: mat_at_def)
next
  case False
  with assms show ?thesis by (simp add: mat_at_def)
qed

lemma np_add_square:
  "np_add \<lparr>nrows = n, ncols = n, rows = map (\<lambda>i. map (\<lambda>j. f i j) [0..<n]) [0..<n]\<rparr>
          \<lparr>nrows = n, ncols = n, rows = map (\<lambda>i. map (\<lambda>j. g i j) [0..<n]) [0..<n]\<rparr> =
     Inr \<lparr>nrows = n, ncols = n, rows = map (\<lambda>i. map (\<lambda>j. f i j + g i j) [0..<n]) [0..<n]\<rparr>"
  by (simp add: np_add_def broadcast_dim_def mat_at_square)

lemma np_add_empty:
  "nat \<bar>k\<bar> = 1 \<Longrightarrow>
   np_add \<lparr>nrows = 0, ncols = 0, rows = []\<rparr> (np_diag [] k) = Inr \<lparr>nrows = 0, ncols = 0, rows = []\<rparr>"
  by (simp add: np_add_def broadcast_dim_def np_diag_def Let_def)

lemma asarray_sum:
  fixes d :: "('a::monoid_add) list"
  assumes len: "length od = length d - 1"
  shows "\<exists>m. np_add (np_diag d 0) (np_diag od 1) = Inr m \<and>
             np_add m (np_diag od (- 1)) = Inr (tridiag_dense d od)"
proof (cases "d = []")
  case True
  with len have od: "od = []" by simp
  have "np_diag ([]::'a list) 0 = \<lparr>nrows = 0, ncols = 0, rows = []\<rparr>"
    by (simp add: np_diag_def)
  with True od show ?thesis
    by (simp add: np_add_empty tridiag_dense_def)
next
  case False
  let ?l = "length d"
  have l: "length od + 1 = ?l" using False len by (cases d) auto
  let ?D = "\<lambda>i j. if int j = int i + 0 then d ! i else 0"
  let ?U = "\<lambda>i j. if int j = int i + 1 then od ! i else 0"
  let ?L = "\<lambda>i j. if int j = int i + (- 1) then od ! j else 0"
  have D: "np_diag d 0 = \<lparr>nrows = ?l, ncols = ?l, rows = map (\<lambda>i. map (\<lambda>j. ?D i j) [0..<?l]) [0..<?l]\<rparr>"
    by (simp add: np_diag_def Let_def cong: if_cong)
  have U: "np_diag od 1 = \<lparr>nrows = ?l, ncols = ?l, rows = map (\<lambda>i. map (\<lambda>j. ?U i j) [0..<?l]) [0..<?l]\<rparr>"
    using l by (simp add: np_diag_def Let_def cong: if_cong)
  have L: "np_diag od (- 1) = \<lparr>nrows = ?l, ncols = ?l, rows = map (\<lambda>i. map (\<lambda>j. ?L i j) [0..<?l]) [0..<?l]\<rparr>"
    using l by (simp add: np_diag_def Let_def cong: if_cong)
  have s1: "np_add (np_diag d 0) (np_diag od 1) =
      Inr \<lparr>nrows = ?l, ncols = ?l, rows = map (\<lambda>i. map (\<lambda>j. ?D i j + ?U i j) [0..<?l]) [0..<?l]\<rparr>"
    unfolding D U by (rule np_add_square)
  have s2: "np_add \<lparr>nrows = ?l, ncols = ?l, rows = map (\<lambda>i. map (\<lambda>j. ?D i j + ?U i j) [0..<?l]) [0..<?l]\<rparr>
        (np_diag od (- 1)) =
      Inr \<lparr>nrows = ?l, ncols = ?l,
           rows = map (\<lambda>i. map (\<lambda>j. ?D i j + ?U i j + ?L i j) [0..<?l]) [0..<?l]\<rparr>"
    unfolding L by (rule np_add_square)
  have "map (\<lambda>i. map (\<lambda>j. ?D i j + ?U i j + ?L i j) [0..<?l]) [0..<?l] =
        map (\<lambda>i. map (\<lambda>j. if i = j then d ! i
                               else if j = i + 1 then od ! i
                               else if i = j + 1 then od ! j
                               else 0) [0..<?l]) [0..<?l]"
    by (intro map_cong refl) auto
  with s1 s2 show ?thesis by (simp add: tridiag_dense_def)
qed

subsection \<open>Constructed containers\<close>

lemma EnsembleTriDiag_init_Inr:
  assumes dist: "distinct (map fst (Ensemble_iter ens))"
    and init: "EnsembleTriDiag_init ens dat diag_tag offdiag_tag = Inr t"
  shows "ensemble t = ens \<and> map fst (diag t) = map fst (Ensemble_iter ens) \<and>
         map fst (offdiag t) = map fst (Ensemble_iter ens) \<and> Ensemble_iter ens \<noteq> [] \<and>
         (\<forall>bd \<in> set (Ensemble_iter ens).
            \<exists>d od. od_get (diag t) (fst bd) = Inr d \<and> od_get (offdiag t) (fst bd) = Inr od \<and>
              length od = length d - 1)"
proof -
  let ?items = "Ensemble_iter ens"
  from init obtain A B pd where A: "Array_init_tag ens dat diag_tag = Inr A"
    and B: "Array_init_tag ens dat offdiag_tag = Inr B"
    and pd: "store_loop (tridiag_entry A B) ?items = Inr pd"
    and t: "t = \<lparr>ensemble = ens, diag = map (\<lambda>kp. (fst kp, fst (snd kp))) pd,
                  offdiag = map (\<lambda>kp. (fst kp, snd (snd kp))) pd\<rparr>"
    by (auto simp: EnsembleTriDiag_init_loop split: sum.splits)
  have ne: "?items \<noteq> []"
    using store_loop_check_Inr [OF dist A [unfolded Array_init_tag_def]] by blast
  have keys: "map fst pd = map fst ?items" using dist pd by (rule store_loop_keys)
  have per: "\<exists>d od. od_get (diag t) (fst bd) = Inr d \<and> od_get (offdiag t) (fst bd) = Inr od \<and>
              length od = length d - 1" if m: "bd \<in> set ?items" for bd
  proof -
    from store_loop_lookup [OF dist pd m] obtain p where
      p: "tridiag_entry A B bd = Inr p" "od_get pd (fst bd) = Inr p" by blast
    from p(1) obtain x y where "tridiag_block x y = Inr p"
      by (auto simp: tridiag_entry_def split: sum.splits)
    then have "length (snd p) = length (fst p) - 1"
      by (auto simp: tridiag_block_def split: if_splits)
    with p(2) t show ?thesis by (simp add: od_get_map_snd)
  qed
  from t keys ne per show ?thesis by (simp add: comp_def)
qed

lemma Scalar_init_total:
  assumes dist: "distinct (map fst (Ensemble_iter ens))"
    and ok: "\<forall>bd \<in> set (Ensemble_iter ens). \<exists>x. od_get dat (fst bd) = Inr x"
  shows "\<exists>sc. Scalar_init ens dat = Inr sc \<and> ensemble sc = ens \<and>
           map fst (scalar sc) = map fst (Ensemble_iter ens) \<and>
           (\<forall>bd \<in> set (Ensemble_iter ens). od_get (scalar sc) (fst bd) = od_get dat (fst bd))"
proof -
  let ?f = "\<lambda>(block, deg). od_get dat block :: error + 'a option"
  from ok have "\<forall>kx \<in> set (Ensemble_iter ens). \<exists>v. ?f kx = Inr v"
    by (simp add: case_prod_beta)
  from store_loop_total [OF this] obtain sc where sc: "store_loop ?f (Ensemble_iter ens) = Inr sc"
    by blast
  have keys: "map fst sc = map fst (Ensemble_iter ens)" using dist sc by (rule store_loop_keys)
  have "od_get sc (fst bd) = od_get dat (fst bd)" if "bd \<in> set (Ensemble_iter ens)" for bd
    using store_loop_lookup [OF dist sc that] by (auto simp: case_prod_beta)
  with sc keys show ?thesis by (simp add: Scalar_init_def)
qed

lemma Array_init_total:
  assumes dist: "distinct (map fst (Ensemble_iter ens))" and ne: "Ensemble_iter ens \<noteq> []"
    and ok: "\<forall>bd \<in> set (Ensemble_iter ens). \<exists>x. od_get dat (fst bd) = Inr x \<and> np_ndim x = n"
  shows "\<exists>a. Array_init ens dat = Inr a \<and> ensemble a = ens \<and> ndim a = n \<and>
           map fst (array a) = map fst (Ensemble_iter ens) \<and>
           (\<forall>bd \<in> set (Ensemble_iter ens). od_get (array a) (fst bd) = od_get dat (fst bd))"
proof -
  let ?f = "\<lambda>(block, deg). od_get dat block :: error + 'a ndarray"
  from ok have "\<forall>kx \<in> set (Ensemble_iter ens). \<exists>x. ?f kx = Inr x \<and> np_ndim x = n"
    by (simp add: case_prod_beta)
  from store_loop_check_total [OF dist ne this, of ens] obtain a where
    a: "Array_init ens dat = Inr a" and n: "ndim a = n"
    by (auto simp: Array_init_def)
  from Array_init_Inr [OF dist a] n a show ?thesis by fastforce
qed

subsection \<open>The smallest eigenvalue\<close>

text \<open>
  Claim C5. For a constructed container, whenever the selective-range routine, asked
  for the index range \<open>(0, 0)\<close>, delivers a value on every block of length at least 2,
  \<open>eig0\<close> returns a scalar container over the same Partition, with the keys in its
  order of iteration, whose entry is \<open>None\<close> for every block of length zero, the sole
  diagonal entry \<open>d[0]\<close> for every block of length 1, and the first value that the
  routine delivers for every block of length at least 2.
\<close>

theorem eig0_entries:
  assumes ens: "Ensemble_init str_of int_of self args dd = Inr ens"
    and t: "EnsembleTriDiag_init ens dat diag_tag offdiag_tag = Inr t"
    and routine: "\<forall>block d od. od_get (diag t) block = Inr d \<and> od_get (offdiag t) block = Inr od \<and>
        2 \<le> length d \<longrightarrow> (\<exists>w. eigvalsh_tridiagonal d od (Select_i 0 0) = Inr w \<and> w \<noteq> [])"
  shows "\<exists>sc. eig0 eigvalsh_tridiagonal t = Inr sc \<and> ensemble sc = ensemble t \<and>
           map fst (scalar sc) = map fst (Ensemble_iter (ensemble t)) \<and>
           (\<forall>block \<in> set (map fst (Ensemble_iter (ensemble t))).
              \<exists>d od. od_get (diag t) block = Inr d \<and> od_get (offdiag t) block = Inr od \<and>
                (length d = 0 \<longrightarrow> od_get (scalar sc) block = Inr None) \<and>
                (length d = 1 \<longrightarrow> od_get (scalar sc) block = Inr (Some (d ! 0))) \<and>
                (2 \<le> length d \<longrightarrow>
                   (\<exists>w. eigvalsh_tridiagonal d od (Select_i 0 0) = Inr w \<and>
                        od_get (scalar sc) block = Inr (Some (w ! 0)))))"
proof -
  let ?items = "Ensemble_iter ens"
  let ?f = "eig0_block eigvalsh_tridiagonal t"
  have dist: "distinct (map fst ?items)" using ens by (rule Ensemble_init_distinct)
  note TI = EnsembleTriDiag_init_Inr [OF dist t]
  have et: "ensemble t = ens" using TI by blast
  have blk: "\<exists>d od v. od_get (diag t) (fst bd) = Inr d \<and> od_get (offdiag t) (fst bd) = Inr od \<and>
                ?f bd = Inr v \<and>
                (length d = 0 \<longrightarrow> v = None) \<and>
                (length d = 1 \<longrightarrow> v = Some (d ! 0)) \<and>
                (2 \<le> length d \<longrightarrow>
                   (\<exists>w. eigvalsh_tridiagonal d od (Select_i 0 0) = Inr w \<and> v = Some (w ! 0)))"
    if m: "bd \<in> set ?items" for bd
  proof -
    from TI m obtain d od where d: "od_get (diag t) (fst bd) = Inr d"
      and od: "od_get (offdiag t) (fst bd) = Inr od" by blast
    show ?thesis
    proof (cases "2 \<le> length d")
      case True
      with routine d od obtain w where w: "eigvalsh_tridiagonal d od (Select_i 0 0) = Inr w" "w \<noteq> []"
        by blast
      then obtain x xs where "w = x # xs" by (cases w) auto
      moreover from True have "length d \<noteq> 0" "length d \<noteq> 1" by auto
      ultimately have "?f bd = Inr (Some (w ! 0))"
        using w d od by (simp add: eig0_block_def)
      with d od w True show ?thesis by auto
    next
      case False
      then have "length d = 0 \<or> length d = 1" by linarith
      with d od show ?thesis by (auto simp: eig0_block_def)
    qed
  qed
  then have "\<forall>kx \<in> set ?items. \<exists>v. ?f kx = Inr v" by blast
  from store_loop_total [OF this] obtain data_e0 where
    e0: "store_loop ?f ?items = Inr data_e0" by blast
  have look: "\<exists>v. ?f bd = Inr v \<and> od_get data_e0 (fst bd) = Inr v" if "bd \<in> set ?items" for bd
    using dist e0 that by (rule store_loop_lookup)
  then have "\<forall>bd \<in> set ?items. \<exists>x. od_get data_e0 (fst bd) = Inr x" by blast
  from Scalar_init_total [OF dist this] obtain sc where
    sc: "Scalar_init ens data_e0 = Inr sc" "ensemble sc = ens"
      "map fst (scalar sc) = map fst ?items"
      "\<forall>bd \<in> set ?items. od_get (scalar sc) (fst bd) = od_get data_e0 (fst bd)" by blast
  have run: "eig0 eigvalsh_tridiagonal t = Inr sc"
    using e0 sc(1) et by (simp add: eig0_def)
  have per: "\<exists>d od. od_get (diag t) block = Inr d \<and> od_get (offdiag t) block = Inr od \<and>
                (length d = 0 \<longrightarrow> od_get (scalar sc) block = Inr None) \<and>
                (length d = 1 \<longrightarrow> od_get (scalar sc) block = Inr (Some (d ! 0))) \<and>
                (2 \<le> length d \<longrightarrow>
                   (\<exists>w. eigvalsh_tridiagonal d od (Select_i 0 0) = Inr w \<and>
                        od_get (scalar sc) block = Inr (Some (w ! 0))))"
    if "block \<in> set (map fst ?items)" for block
  proof -
    from that obtain bd where m: "bd \<in> set ?items" and k: "fst bd = block" by auto
    from blk [OF m] obtain d od v where b: "od_get (diag t) (fst bd) = Inr d"
      "od_get (offdiag t) (fst bd) = Inr od" "?f bd = Inr v"
      "length d = 0 \<longrightarrow> v = None" "length d = 1 \<longrightarrow> v = Some (d ! 0)"
      "2 \<le> length d \<longrightarrow> (\<exists>w. eigvalsh_tridiagonal d od (Select_i 0 0) = Inr w \<and> v = Some (w ! 0))"
      by blast
    from look [OF m] b(3) have "od_get data_e0 (fst bd) = Inr v" by simp
    with sc(4) m have "od_get (scalar sc) block = Inr v" using k by auto
    with b k show ?thesis by auto
  qed
  from run sc(2,3) per et show ?thesis by (simp del: set_map)
qed

theorem eig0_entries_witness:
  "Ensemble_init py_str py_int 0
       [Iterable [Obj (PyStr ''a''), Obj (PyStr ''b''), Obj (PyStr ''c'')]] 1 = Inr ens_abc \<and>
   EnsembleTriDiag_init ens_abc
       [([''a''], [(''diag'', vector ([] :: int list)), (''offdiag'', vector [])]),
        ([''b''], [(''diag'', vector [7]), (''offdiag'', vector [])]),
        ([''c''], [(''diag'', vector [3, 1]), (''offdiag'', vector [0])])] ''diag'' ''offdiag'' =
     Inr \<lparr>ensemble = ens_abc,
          diag = [([''a''], []), ([''b''], [7]), ([''c''], [3, 1])],
          offdiag = [([''a''], []), ([''b''], []), ([''c''], [0])]\<rparr> \<and>
   (\<exists>sc. eig0 lowest_of_diagonal
            \<lparr>ensemble = ens_abc,
             diag = [([''a''], []), ([''b''], [7]), ([''c''], [3, 1])],
             offdiag = [([''a''], []), ([''b''], []), ([''c''], [0])]\<rparr> = Inr sc \<and>
      ensemble sc = ens_abc \<and>
      od_get (scalar sc) [''a''] = Inr None \<and>
      od_get (scalar sc) [''b''] = Inr (Some 7) \<and>
      od_get (scalar sc) [''c''] = Inr (Some 1))"
proof -
  let ?t = "\<lparr>ensemble = ens_abc,
          diag = [([''a''], []), ([''b''], [7]), ([''c''], [3, 1 :: int])],
          offdiag = [([''a''], []), ([''b''], []), ([''c''], [0 :: int])]\<rparr>"
  have e: "Ensemble_init py_str py_int 0
       [Iterable [Obj (PyStr ''a''), Obj (PyStr ''b''), Obj (PyStr ''c'')]] 1 = Inr ens_abc"
    by (simp add: Ensemble_init_def format_args_def add_block_def block_of_def deg_of_def)
  have t: "EnsembleTriDiag_init ens_abc
       [([''a''], [(''diag'', vector ([] :: int list)), (''offdiag'', vector [])]),
        ([''b''], [(''diag'', vector [7]), (''offdiag'', vector [])]),
        ([''c''], [(''diag'', vector [3, 1]), (''offdiag'', vector [0])])] ''diag'' ''offdiag'' =
     Inr ?t"
    by (simp add: EnsembleTriDiag_init_def Array_init_tag_def store_loop_def Ensemble_iter_def
      od_get_def check_ndim_def np_unique_def np_ndim_def tridiag_step_def tridiag_entry_def
      tridiag_block_def np_flatten_def)
  have r: "\<forall>block d od. od_get (diag ?t) block = Inr d \<and> od_get (offdiag ?t) block = Inr od \<and>
        2 \<le> length d \<longrightarrow> (\<exists>w. lowest_of_diagonal d od (Select_i 0 0) = Inr w \<and> w \<noteq> [])"
    by (auto simp: od_get_def lowest_of_diagonal_def split: if_splits)
  show ?thesis
    using e t eig0_entries [where eigvalsh_tridiagonal = lowest_of_diagonal, OF e t r]
    by (auto simp: Ensemble_iter_def od_get_def lowest_of_diagonal_def)
qed

subsection \<open>The dense matrices\<close>

text \<open>
  Claim C6. For a constructed container, \<open>asarray\<close> returns a container of
  2-dimensional arrays over the same Partition whose entry for every block is the
  symmetric tridiagonal matrix of the block: the diagonal on the main diagonal, the
  off-diagonal on the two adjacent diagonals, zero elsewhere. Its shape is
  \<open>(len(d), len(d))\<close>, so a block of length zero yields a matrix of shape \<open>(0, 0)\<close>.
\<close>

theorem asarray_dense:
  fixes t :: "('a::monoid_add) TriDiag"
  assumes ens: "Ensemble_init str_of int_of self args dd = Inr ens"
    and t: "EnsembleTriDiag_init ens dat diag_tag offdiag_tag = Inr t"
  shows "\<exists>a. asarray t = Inr a \<and> ensemble a = ensemble t \<and> ndim a = 2 \<and>
           map fst (array a) = map fst (Ensemble_iter (ensemble t)) \<and>
           (\<forall>block \<in> set (map fst (Ensemble_iter (ensemble t))).
              \<exists>d od. od_get (diag t) block = Inr d \<and> od_get (offdiag t) block = Inr od \<and>
                od_get (array a) block = Inr (np_array (tridiag_dense d od)) \<and>
                shape (np_array (tridiag_dense d od)) = [length d, length d])"
proof -
  let ?items = "Ensemble_iter ens"
  let ?f = "asarray_block t"
  have dist: "distinct (map fst ?items)" using ens by (rule Ensemble_init_distinct)
  note TI = EnsembleTriDiag_init_Inr [OF dist t]
  have et: "ensemble t = ens" and ne: "?items \<noteq> []" using TI by blast+
  have blk: "\<exists>d od. od_get (diag t) (fst bd) = Inr d \<and> od_get (offdiag t) (fst bd) = Inr od \<and>
                ?f bd = Inr (np_array (tridiag_dense d od))" if m: "bd \<in> set ?items" for bd
  proof -
    from TI m obtain d od where d: "od_get (diag t) (fst bd) = Inr d"
      and od: "od_get (offdiag t) (fst bd) = Inr od" and len: "length od = length d - 1" by blast
    from asarray_sum [OF len] obtain m where "np_add (np_diag d 0) (np_diag od 1) = Inr m"
      "np_add m (np_diag od (- 1)) = Inr (tridiag_dense d od)" by blast
    with d od show ?thesis by (simp add: asarray_block_def)
  qed
  then have "\<forall>kx \<in> set ?items. \<exists>v. ?f kx = Inr v" by blast
  from store_loop_total [OF this] obtain data_mats where
    dm: "store_loop ?f ?items = Inr data_mats" by blast
  have look: "\<exists>v. ?f bd = Inr v \<and> od_get data_mats (fst bd) = Inr v" if "bd \<in> set ?items" for bd
    using dist dm that by (rule store_loop_lookup)
  have "\<forall>bd \<in> set ?items. \<exists>x. od_get data_mats (fst bd) = Inr x \<and> np_ndim x = 2"
  proof
    fix bd assume m: "bd \<in> set ?items"
    from blk [OF m] look [OF m]
    show "\<exists>x. od_get data_mats (fst bd) = Inr x \<and> np_ndim x = 2"
      by (auto simp: np_ndim_def np_array_def)
  qed
  from Array_init_total [OF dist ne this] obtain a where
    a: "Array_init ens data_mats = Inr a" "ensemble a = ens" "ndim a = 2"
      "map fst (array a) = map fst ?items"
      "\<forall>bd \<in> set ?items. od_get (array a) (fst bd) = od_get data_mats (fst bd)" by blast
  have run: "asarray t = Inr a" using dm a(1) et by (simp add: asarray_def)
  have per: "\<exists>d od. od_get (diag t) block = Inr d \<and> od_get (offdiag t) block = Inr od \<and>
                od_get (array a) block = Inr (np_array (tridiag_dense d od)) \<and>
                shape (np_array (tridiag_dense d od)) = [length d, length d]"
    if "block \<in> set (map fst ?items)" for block
  proof -
    from that obtain bd where m: "bd \<in> set ?items" and k: "fst bd = block" by auto
    from blk [OF m] obtain d od where b: "od_get (diag t) (fst bd) = Inr d"
      "od_get (offdiag t) (fst bd) = Inr od" "?f bd = Inr (np_array (tridiag_dense d od))" by blast
    from look [OF m] b(3) have "od_get data_mats (fst bd) = Inr (np_array (tridiag_dense d od))"
      by simp
    with a(5) m k have "od_get (array a) block = Inr (np_array (tridiag_dense d od))" by auto
    moreover have "shape (np_array (tridiag_dense d od)) = [length d, length d]"
      by (simp add: np_array_def tridiag_dense_def)
    ultimately show ?thesis using b k by auto
  qed
  from run a(2,3,4) per et show ?thesis by (simp del: set_map)
qed

theorem asarray_dense_witness:
  "Ensemble_init py_str py_int 0 [Iterable [Obj (PyStr ''a''), Obj (PyStr ''b'')]] 1 = Inr ens_ab \<and>
   EnsembleTriDiag_init ens_ab
       [([''a''], [(''diag'', vector [1, 2, 3 :: int]), (''offdiag'', vector [5, 6, 7])]),
        ([''b''], [(''diag'', vector []), (''offdiag'', vector [])])] ''diag'' ''offdiag'' =
     Inr \<lparr>ensemble = ens_ab,
          diag = [([''a''], [1, 2, 3]), ([''b''], [])],
          offdiag = [([''a''], [5, 6]), ([''b''], [])]\<rparr> \<and>
   (\<exists>a. asarray \<lparr>ensemble = ens_ab,
          diag = [([''a''], [1, 2, 3 :: int]), ([''b''], [])],
          offdiag = [([''a''], [5, 6]), ([''b''], [])]\<rparr> = Inr a \<and>
      ensemble a = ens_ab \<and> ndim a = 2 \<and>
      od_get (array a) [''a''] =
        Inr \<lparr>shape = [3, 3], entries = [1, 5, 0,  5, 2, 6,  0, 6, 3]\<rparr> \<and>
      od_get (array a) [''b''] = Inr \<lparr>shape = [0, 0], entries = []\<rparr>)"
proof -
  let ?t = "\<lparr>ensemble = ens_ab,
          diag = [([''a''], [1, 2, 3 :: int]), ([''b''], [])],
          offdiag = [([''a''], [5, 6 :: int]), ([''b''], [])]\<rparr>"
  have e: "Ensemble_init py_str py_int 0 [Iterable [Obj (PyStr ''a''), Obj (PyStr ''b'')]] 1 =
             Inr ens_ab"
    by (simp add: Ensemble_init_def format_args_def add_block_def block_of_def deg_of_def)
  have t: "EnsembleTriDiag_init ens_ab
       [([''a''], [(''diag'', vector [1, 2, 3 :: int]), (''offdiag'', vector [5, 6, 7])]),
        ([''b''], [(''diag'', vector []), (''offdiag'', vector [])])] ''diag'' ''offdiag'' =
     Inr ?t"
    by (simp add: EnsembleTriDiag_init_def Array_init_tag_def store_loop_def Ensemble_iter_def
      od_get_def check_ndim_def np_unique_def np_ndim_def tridiag_step_def tridiag_entry_def
      tridiag_block_def np_flatten_def)
  show ?thesis
    using e t asarray_dense [OF e t]
    by (auto simp: Ensemble_iter_def od_get_def np_array_def tridiag_dense_def)
qed

end
